theory Spec2Isabelle
  imports Main "HOL-Library.AList"
begin

section \<open>Experiment metadata of multipatch\_analysis: data model\<close>

text \<open>
  The embedding follows \<^verbatim>\<open>multipatch_analysis/experiment.py\<close>. Python dictionaries
  that are iterated (the cell registry, the summary) are association lists in insertion
  order; \<^verbatim>\<open>d[k] = v\<close> is \<^const>\<open>AList.update\<close> (replace in place, else append) and
  \<^verbatim>\<open>d[k]\<close> is \<^const>\<open>map_of\<close>, with the \<^verbatim>\<open>KeyError\<close> written out. Python's
  \<^verbatim>\<open>None\<close>/\<^verbatim>\<open>True\<close>/\<^verbatim>\<open>False\<close> flags are \<^typ>\<open>bool option\<close>. Exceptions are values
  of the type \<open>error\<close>; a function that can raise returns \<open>error + 'a\<close>.
  A string is the list of the characters of a Python 3 \<^verbatim>\<open>str\<close>, each a code point
  below 256.
\<close>

datatype error =
    Exception string
  | ValueError
  | KeyError
  | AssertionError
  | AttributeError
  | TypeError

text \<open>
  The class \<^verbatim>\<open>Cell\<close> lives in \<^verbatim>\<open>cell.py\<close>, which is not among the sources. The record
  holds the attributes that \<^verbatim>\<open>experiment.py\<close> reads and writes: \<^verbatim>\<open>_target_layer\<close>,
  \<^verbatim>\<open>_raw_labels\<close>, \<^verbatim>\<open>labels\<close> (the old-format parser stores the marker group
  \<^verbatim>\<open>'+'\<close>, \<^verbatim>\<open>'-'\<close> or \<^verbatim>\<open>None\<close>) and the three QC flags.
\<close>

record cell =
  cell_id :: int
  p_target_layer :: "string option"
  p_raw_labels :: "(string \<times> string) list"
  labels :: "(string \<times> string option) list"
  holding_qc :: "bool option"
  access_qc :: "bool option"
  spiking_qc :: "bool option"

text \<open>
  Modelled from the spec: the constructor \<^verbatim>\<open>Cell(expt, cell_id)\<close> of the missing
  \<^verbatim>\<open>cell.py\<close>. The spec gives the QC flags the default unknown; the label mappings start
  empty (the parsers assert that a label is not yet present) and no target layer is set.
\<close>

definition Cell :: "int \<Rightarrow> cell" where
  "Cell i = \<lparr> cell_id = i, p_target_layer = None, p_raw_labels = [], labels = [],
              holding_qc = None, access_qc = None, spiking_qc = None \<rparr>"

text \<open>
  Modelled from the spec: the read view \<^verbatim>\<open>Cell.pass_qc\<close> of the missing \<^verbatim>\<open>cell.py\<close>,
  "conjunction of holding/access QC" over the tri-state flags.
\<close>

definition pass_qc :: "cell \<Rightarrow> bool option" where
  "pass_qc c =
     (if access_qc c = Some True \<and> holding_qc c = Some True then Some True
      else if access_qc c = Some False \<or> holding_qc c = Some False then Some False
      else None)"

text \<open>
  The other read views of \<^verbatim>\<open>Cell\<close> that \<^verbatim>\<open>experiment.py\<close> calls (\<^verbatim>\<open>cre_type\<close>,
  \<^verbatim>\<open>target_layer\<close>, \<^verbatim>\<open>distance\<close>) are parameters of the functions below: every result
  holds for any implementation of them that returns a value.
\<close>

record 'd csum_entry =
  connected :: nat
  unconnected :: nat
  cdist :: "'d list"
  udist :: "'d list"

type_synonym pair = "int \<times> int"

type_synonym ('l, 'd) csum =
  "((('l \<times> string option) \<times> ('l \<times> string option)) \<times> 'd csum_entry) list"

text \<open>
  The fields of \<^verbatim>\<open>Experiment\<close> that the modelled methods use. \<open>cells\<close> is the registry
  \<^verbatim>\<open>self.cells\<close> (cell id to cell, in insertion order); the fields \<open>p_x\<close> are the
  private attributes \<^verbatim>\<open>self._x\<close>, \<open>None\<close> until assigned.
\<close>

record ('l, 'd) expt =
  cells :: "(int \<times> cell) list"
  p_connections :: "pair list option"
  p_gaps :: "pair list option"
  p_region :: "string option"
  p_site_path :: "string option"
  p_probed :: "pair list option"
  p_summary :: "('l, 'd) csum option"

section \<open>Derived views\<close>

text \<open>The double loop of \<^verbatim>\<open>connections_probed\<close> over \<^verbatim>\<open>self.cells.items()\<close>.\<close>

definition probe_pair ::
  "(cell \<Rightarrow> string option) \<Rightarrow> int \<times> cell \<Rightarrow> int \<times> cell \<Rightarrow> pair list" where
  "probe_pair cre_type ici jcj =
     (case ici of (i, ci) \<Rightarrow> case jcj of (j, cj) \<Rightarrow>
        if i = j then []
        else if spiking_qc ci \<noteq> Some True then []
        else if pass_qc cj \<noteq> Some True then []
        else if cre_type ci = None \<or> cre_type cj = None then []
        else [(i, j)])"

definition probed_loop :: "(cell \<Rightarrow> string option) \<Rightarrow> (int \<times> cell) list \<Rightarrow> pair list" where
  "probed_loop cre_type cs =
     concat (map (\<lambda>ici. concat (map (\<lambda>jcj. probe_pair cre_type ici jcj) cs)) cs)"

text \<open>
  The property \<^verbatim>\<open>connections_probed\<close>: computed on the first read, stored in
  \<^verbatim>\<open>self._probed\<close> and returned from there afterwards.
\<close>

definition connections_probed ::
  "(cell \<Rightarrow> string option) \<Rightarrow> ('l, 'd) expt \<Rightarrow> pair list \<times> ('l, 'd) expt" where
  "connections_probed cre_type e =
     (case p_probed e of
        None \<Rightarrow> (let probed = probed_loop cre_type (cells e)
                 in (probed, e\<lparr>p_probed := Some probed\<rparr>))
      | Some probed \<Rightarrow> (probed, e))"

text \<open>
  \<^verbatim>\<open>connection_calls\<close> and \<^verbatim>\<open>gap_calls\<close> return \<^verbatim>\<open>None\<close> or a slice copy of the
  curated list; as values the copy is the list itself.
\<close>

definition connection_calls :: "('l, 'd) expt \<Rightarrow> pair list option" where
  "connection_calls e = (case p_connections e of None \<Rightarrow> None | Some cs \<Rightarrow> Some cs)"

definition gap_calls :: "('l, 'd) expt \<Rightarrow> pair list option" where
  "gap_calls e = (case p_gaps e of None \<Rightarrow> None | Some gs \<Rightarrow> Some gs)"

definition connections ::
  "(cell \<Rightarrow> string option) \<Rightarrow> ('l, 'd) expt \<Rightarrow> pair list option \<times> ('l, 'd) expt" where
  "connections cre_type e =
     (case connection_calls e of
        None \<Rightarrow> (None, e)
      | Some calls \<Rightarrow>
          (case connections_probed cre_type e of (probed, e') \<Rightarrow>
             (Some (filter (\<lambda>c. c \<in> set probed) calls), e')))"

definition gaps ::
  "(cell \<Rightarrow> string option) \<Rightarrow> ('l, 'd) expt \<Rightarrow> pair list option \<times> ('l, 'd) expt" where
  "gaps cre_type e =
     (case gap_calls e of
        None \<Rightarrow> (None, e)
      | Some calls \<Rightarrow>
          (case connections_probed cre_type e of (probed, e') \<Rightarrow>
             (Some (filter (\<lambda>c. c \<in> set probed) calls), e')))"

text \<open>
  The loop of \<^verbatim>\<open>summary()\<close> over the probed pairs. Each round looks both cells up
  (\<^verbatim>\<open>KeyError\<close> when one is missing), creates the entry of the pair's type when the
  dictionary has none, and reads \<^verbatim>\<open>self.connections\<close> again for the membership test.
\<close>

definition new_entry :: "'d csum_entry" where
  "new_entry = \<lparr> connected = 0, unconnected = 0, cdist = [], udist = [] \<rparr>"

definition add_connected :: "'d \<Rightarrow> 'd csum_entry \<Rightarrow> 'd csum_entry" where
  "add_connected d v = v\<lparr> connected := connected v + 1, cdist := cdist v @ [d] \<rparr>"

definition add_unconnected :: "'d \<Rightarrow> 'd csum_entry \<Rightarrow> 'd csum_entry" where
  "add_unconnected d v = v\<lparr> unconnected := unconnected v + 1, udist := udist v @ [d] \<rparr>"

fun summary_loop ::
  "(cell \<Rightarrow> string option) \<Rightarrow> (cell \<Rightarrow> 'l) \<Rightarrow> (cell \<Rightarrow> cell \<Rightarrow> 'd) \<Rightarrow>
   ('l, 'd) expt \<Rightarrow> pair list \<Rightarrow> ('l, 'd) csum \<Rightarrow>
   error + (('l, 'd) csum \<times> ('l, 'd) expt)" where
  "summary_loop cre_type target_layer distance e [] csum = Inr (csum, e)"
| "summary_loop cre_type target_layer distance e (ij # rest) csum =
     (case map_of (cells e) (fst ij) of
        None \<Rightarrow> Inl KeyError
      | Some ci \<Rightarrow>
     (case map_of (cells e) (snd ij) of
        None \<Rightarrow> Inl KeyError
      | Some cj \<Rightarrow>
         (let typ = ((target_layer ci, cre_type ci), (target_layer cj, cre_type cj));
              csum1 = (if map_of csum typ = None then AList.update typ new_entry csum
                       else csum)
          in case connections cre_type e of
               (None, e') \<Rightarrow> Inl TypeError
             | (Some conns, e') \<Rightarrow>
                 if ij \<in> set conns
                 then summary_loop cre_type target_layer distance e' rest
                        (AList.map_entry typ (add_connected (distance ci cj)) csum1)
                 else summary_loop cre_type target_layer distance e' rest
                        (AList.map_entry typ (add_unconnected (distance ci cj)) csum1))))"

definition summary ::
  "(cell \<Rightarrow> string option) \<Rightarrow> (cell \<Rightarrow> 'l) \<Rightarrow> (cell \<Rightarrow> cell \<Rightarrow> 'd) \<Rightarrow>
   ('l, 'd) expt \<Rightarrow> error + (('l, 'd) csum option \<times> ('l, 'd) expt)" where
  "summary cre_type target_layer distance e =
     (case connections cre_type e of
        (None, e1) \<Rightarrow> Inr (None, e1)
      | (Some conns, e1) \<Rightarrow>
          (case p_summary e1 of
             Some s \<Rightarrow> Inr (Some s, e1)
           | None \<Rightarrow>
               (case connections_probed cre_type e1 of (probed, e2) \<Rightarrow>
                  (case summary_loop cre_type target_layer distance e2 probed [] of
                     Inl err \<Rightarrow> Inl err
                   | Inr (csum, e3) \<Rightarrow> Inr (Some csum, e3\<lparr>p_summary := Some csum\<rparr>)))))"

text \<open>
  The sums the spec takes over the summary: for every key \<open>k\<close> of the dictionary, the
  entry \<^verbatim>\<open>summary()[k]\<close> is looked up and its counts are added.
\<close>

definition summary_count :: "('d csum_entry \<Rightarrow> nat) \<Rightarrow> ('l, 'd) csum \<Rightarrow> nat" where
  "summary_count field s =
     sum_list (map (\<lambda>k. case map_of s k of None \<Rightarrow> 0 | Some v \<Rightarrow> field v) (map fst s))"

definition summary_total :: "('l, 'd) csum \<Rightarrow> nat" where
  "summary_total s = summary_count (\<lambda>v. connected v + unconnected v) s"

section \<open>Strings and the regular expressions of the parsers\<close>

text \<open>
  The whitespace of Python 3, which \<^verbatim>\<open>\s\<close> matches and \<^verbatim>\<open>str.strip()\<close> removes: below
  256 these are tab, line feed, vertical tab, form feed, carriage return, the four
  separators 0x1C to 0x1F, space, next line (0x85) and no-break space (0xA0). \<^verbatim>\<open>\d\<close> is
  a decimal digit; below 256 these are \<^verbatim>\<open>0\<close> to \<^verbatim>\<open>9\<close>.
\<close>

definition is_space :: "char \<Rightarrow> bool" where
  "is_space c =
     (c \<in> set [CHR 0x09, CHR 0x0A, CHR 0x0B, CHR 0x0C, CHR 0x0D, CHR 0x1C, CHR 0x1D, CHR 0x1E,
               CHR 0x1F, CHR 0x20, CHR 0x85, CHR 0xA0])"

definition is_ascii :: "char \<Rightarrow> bool" where
  "is_ascii c = ((of_char c :: nat) < 128)"

definition is_digit :: "char \<Rightarrow> bool" where
  "is_digit c = (c \<in> set ''0123456789'')"

definition strip :: "string \<Rightarrow> string" where
  "strip s = rev (dropWhile is_space (rev (dropWhile is_space s)))"

definition startswith :: "string \<Rightarrow> string \<Rightarrow> bool" where
  "startswith s p = (take (length p) s = p)"

definition endswith :: "string \<Rightarrow> string \<Rightarrow> bool" where
  "endswith s p = (length p \<le> length s \<and> drop (length s - length p) s = p)"

text \<open>
  \<^verbatim>\<open>str.lower()\<close> and \<^verbatim>\<open>str.upper()\<close> on the letters \<^verbatim>\<open>A\<close> to \<^verbatim>\<open>Z\<close> and \<^verbatim>\<open>a\<close> to
  \<^verbatim>\<open>z\<close>; every other character is left as it is. That is Python's result on ASCII
  text. Beyond ASCII, \<^verbatim>\<open>lower\<close> maps no character below 256 to an ASCII one, so the
  comparison of a lowered prefix with an ASCII text is Python's as well.
\<close>

definition lower_char :: "char \<Rightarrow> char" where
  "lower_char c =
     (case map_of (zip ''ABCDEFGHIJKLMNOPQRSTUVWXYZ'' ''abcdefghijklmnopqrstuvwxyz'') c of
        None \<Rightarrow> c | Some d \<Rightarrow> d)"

definition upper_char :: "char \<Rightarrow> char" where
  "upper_char c =
     (case map_of (zip ''abcdefghijklmnopqrstuvwxyz'' ''ABCDEFGHIJKLMNOPQRSTUVWXYZ'') c of
        None \<Rightarrow> c | Some d \<Rightarrow> d)"

definition lower :: "string \<Rightarrow> string" where
  "lower s = map lower_char s"

definition upper :: "string \<Rightarrow> string" where
  "upper s = map upper_char s"

definition lstrip_chars :: "string \<Rightarrow> string \<Rightarrow> string" where
  "lstrip_chars cs s = dropWhile (\<lambda>c. c \<in> set cs) s"

definition rstrip_chars :: "string \<Rightarrow> string \<Rightarrow> string" where
  "rstrip_chars cs s = rev (dropWhile (\<lambda>c. c \<in> set cs) (rev s))"

text \<open>\<^verbatim>\<open>int(s)\<close> on a string of decimal digits.\<close>

definition int_str :: "string \<Rightarrow> int" where
  "int_str ds = foldl (\<lambda>a c. 10 * a + (of_char c - 48)) 0 ds"

text \<open>
  \<^verbatim>\<open>re.split('\s+', s)\<close>: the pieces between maximal runs of whitespace, with an empty
  piece before a leading and after a trailing run. \<open>cur\<close> is the piece being read
  (reversed), \<open>insep\<close> tells that the previous character was whitespace.
\<close>

fun re_split_ws_from :: "bool \<Rightarrow> string \<Rightarrow> string \<Rightarrow> string list" where
  "re_split_ws_from insep cur [] = [rev cur]"
| "re_split_ws_from insep cur (c # cs) =
     (if is_space c
      then (if insep then re_split_ws_from True cur cs
            else rev cur # re_split_ws_from True [] cs)
      else re_split_ws_from False (c # cur) cs)"

definition re_split_ws :: "string \<Rightarrow> string list" where
  "re_split_ws s = re_split_ws_from False [] s"

text \<open>
  An optional one-character group \<^verbatim>\<open>(c)?\<close>: greedy, so it takes the character when it
  is there. The result is the group (\<open>None\<close> when it did not take part) and the rest.
\<close>

definition opt_group :: "(char \<Rightarrow> bool) \<Rightarrow> string \<Rightarrow> string option \<times> string" where
  "opt_group P s =
     (case s of [] \<Rightarrow> (None, [])
      | c # cs \<Rightarrow> if P c then (Some [c], cs) else (None, s))"

text \<open>
  \<^verbatim>\<open>re.match('(\d+)(x)?(\+|\-)?(\?)?', part)\<close>. \<^verbatim>\<open>re.match\<close> anchors the pattern at
  the start of the string only. Everything after the digits is optional, so the match
  succeeds exactly when the string starts with a digit, with the longest run of digits
  as the first group.
\<close>

definition match_label_record ::
  "string \<Rightarrow> (string \<times> string option \<times> string option \<times> string option) option" where
  "match_label_record part =
     (let ds = takeWhile is_digit part; r1 = dropWhile is_digit part
      in if ds = [] then None
         else (case opt_group (\<lambda>c. c = CHR ''x'') r1 of (gx, r2) \<Rightarrow>
               case opt_group (\<lambda>c. c = CHR ''+'' \<or> c = CHR ''-'') r2 of (gp, r3) \<Rightarrow>
               case opt_group (\<lambda>c. c = CHR ''?'') r3 of (gq, r4) \<Rightarrow>
                 Some (ds, gx, gp, gq)))"

text \<open>
  \<^verbatim>\<open>re.match(r'(\d+)(\+|\/|\-|\?)', part)\<close>: digits, then one of the four symbols.
  Giving back digits cannot help (the next character would be a digit), so the run of
  digits is the longest one.
\<close>

definition match_qc :: "string \<Rightarrow> (string \<times> char) option" where
  "match_qc part =
     (let ds = takeWhile is_digit part; r1 = dropWhile is_digit part
      in if ds = [] then None
         else (case r1 of [] \<Rightarrow> None
               | c # cs \<Rightarrow> if c \<in> set ''+/-?'' then Some (ds, c) else None))"

text \<open>
  \<^verbatim>\<open>re.match(r'(\d+)\s*->\s*(\d+)\s*(\??)\s*(.*)', line)\<close>. Up to the second number
  no shorter choice can match; after it every continuation matches, so the greedy
  choices stand. The fourth group (the rest of the first line) is not used by the code.
\<close>

definition match_connection :: "string \<Rightarrow> (string \<times> string \<times> string) option" where
  "match_connection s =
     (let d1 = takeWhile is_digit s; r1 = dropWhile is_space (dropWhile is_digit s)
      in if d1 = [] then None
         else if \<not> startswith r1 ''->'' then None
         else (let r2 = dropWhile is_space (drop 2 r1);
                   d2 = takeWhile is_digit r2;
                   r3 = dropWhile is_space (dropWhile is_digit r2)
               in if d2 = [] then None
                  else Some (d1, d2, (if startswith r3 ''?'' then ''?'' else []))))"

text \<open>
  \<^verbatim>\<open>re.match("^(\d+)(\?)?$", post_id)\<close>: \<^verbatim>\<open>$\<close> matches at the end of the string and
  before a line feed that ends it.
\<close>

definition match_post_id :: "string \<Rightarrow> (string \<times> string option) option" where
  "match_post_id s =
     (let ds = takeWhile is_digit s; r1 = dropWhile is_digit s
      in if ds = [] then None
         else (case opt_group (\<lambda>c. c = CHR ''?'') r1 of (gq, r2) \<Rightarrow>
                 if r2 = [] \<or> r2 = [CHR 0x0A] then Some (ds, gq) else None))"

section \<open>The old-format parsers\<close>

text \<open>
  An entry of the old summary file: the code reads \<^verbatim>\<open>entry.lines[0]\<close> and
  \<^verbatim>\<open>entry.children\<close> only.
\<close>

datatype entry = Entry (line0: string) (children: "entry list")

text \<open>A \<^verbatim>\<open>for\<close> loop whose body may raise: the first error ends it.\<close>

fun for_each :: "('a \<Rightarrow> 's \<Rightarrow> error + 's) \<Rightarrow> 'a list \<Rightarrow> 's \<Rightarrow> error + 's" where
  "for_each body [] s = Inr s"
| "for_each body (x # xs) s =
     (case body x s of Inl err \<Rightarrow> Inl err | Inr s' \<Rightarrow> for_each body xs s')"

subsection \<open>\<^verbatim>\<open>_parse_labeling\<close>\<close>

definition layer_labels :: "string list" where
  "layer_labels = [''L1'', ''L23pyr'', ''L4pyr'', ''L5pyr'', ''L6pyr'']"

text \<open>
  The match of one marker token and the values the code derives from its groups:
  the cell id, \<^verbatim>\<open>absent\<close>, \<^verbatim>\<open>positive\<close> (the group itself), \<^verbatim>\<open>uncertain\<close> and the
  raw label \<^verbatim>\<open>''.join([x or '' for x in grps[1:]])\<close>.
\<close>

record label_record =
  lr_cell_id :: int
  absent :: bool
  positive :: "string option"
  uncertain :: bool
  raw_label :: string

definition parse_label_record :: "string \<Rightarrow> error + label_record" where
  "parse_label_record part =
     (case match_label_record part of
        None \<Rightarrow> Inl (Exception ''invalid label record'')
      | Some (g0, g1, g2, g3) \<Rightarrow>
          Inr \<lparr> lr_cell_id = int_str g0,
                absent = (g1 = Some ''x''),
                positive = g2,
                uncertain = (g3 = Some ''?''),
                raw_label = concat (map (\<lambda>x. case x of None \<Rightarrow> [] | Some g \<Rightarrow> g) [g1, g2, g3]) \<rparr>)"

text \<open>The body of the loop over the marker tokens of one line, for the name \<open>cre\<close>.\<close>

definition parse_label_part ::
  "string \<Rightarrow> string \<Rightarrow> (int \<times> cell) list \<Rightarrow> error + (int \<times> cell) list" where
  "parse_label_part cre part cs =
     (case parse_label_record part of
        Inl err \<Rightarrow> Inl err
      | Inr r \<Rightarrow>
          (case map_of cs (lr_cell_id r) of
             None \<Rightarrow> Inl KeyError
           | Some cell0 \<Rightarrow>
               (let cell1 = cell0\<lparr> p_raw_labels := AList.update cre (raw_label r) (p_raw_labels cell0) \<rparr>
                in if startswith cre ''human_'' \<and> positive r = Some ''+'' then
                     (let layer = upper (drop 7 cre);
                          layer' = (if layer = ''23'' then ''2/3'' else layer)
                      in Inr (AList.update (lr_cell_id r) (cell1\<lparr> p_target_layer := Some layer' \<rparr>) cs))
                   else if cre \<in> set layer_labels then
                     (let layer = rstrip_chars ''pyr'' (lstrip_chars ''L'' cre);
                          layer' = (if layer = ''23'' then ''2/3'' else layer)
                      in Inr (AList.update (lr_cell_id r) (cell1\<lparr> p_target_layer := Some layer' \<rparr>) cs))
                   else if map_of (labels cell1) cre \<noteq> None then Inl AssertionError
                   else Inr (AList.update (lr_cell_id r)
                               (cell1\<lparr> labels := AList.update cre (positive r) (labels cell1) \<rparr>) cs))))"

text \<open>
  One line of the section. \<open>all_labels\<close> and \<open>all_cre_types\<close> are the constants
  \<^verbatim>\<open>ALL_LABELS\<close> and \<^verbatim>\<open>ALL_CRE_TYPES\<close> of \<^verbatim>\<open>constants.py\<close>, which is not among the sources.
  \<open>valid_label_name\<close> is the condition of the line's first check.
\<close>

definition valid_label_name :: "string list \<Rightarrow> string list \<Rightarrow> string \<Rightarrow> bool" where
  "valid_label_name all_labels all_cre_types cre =
     (cre \<in> set all_labels \<or> cre \<in> set all_cre_types
      \<or> startswith (lower cre) ''human_l'' \<or> cre \<in> set layer_labels)"

definition parse_labeling_line ::
  "string list \<Rightarrow> string list \<Rightarrow> entry \<Rightarrow> (int \<times> cell) list \<Rightarrow> error + (int \<times> cell) list" where
  "parse_labeling_line all_labels all_cre_types ch cs =
     (let parts = re_split_ws (line0 ch)
      in if \<not> endswith (hd parts) '':'' then Inl AssertionError
         else (let cre = butlast (hd parts)
               in if \<not> valid_label_name all_labels all_cre_types cre
                  then Inl (Exception ''Invalid label or cre type'')
                  else if length (tl parts) = 1 \<and> strip (parts ! 1) = ''?'' then Inr cs
                  else for_each (parse_label_part cre) (tl parts) cs))"

definition parse_labeling ::
  "string list \<Rightarrow> string list \<Rightarrow> ('l, 'd) expt \<Rightarrow> entry \<Rightarrow> error + ('l, 'd) expt" where
  "parse_labeling all_labels all_cre_types e ent =
     (case for_each (parse_labeling_line all_labels all_cre_types) (children ent) (cells e) of
        Inl err \<Rightarrow> Inl err
      | Inr cs \<Rightarrow> Inr (e\<lparr> cells := cs \<rparr>))"

subsection \<open>\<^verbatim>\<open>_parse_qc\<close>\<close>

text \<open>
  The body of the loop over the tokens of one line with the key \<open>key\<close>
  (\<^verbatim>\<open>parts[0]\<close>). The symbol \<open>val\<close> is one character, so \<^verbatim>\<open>val in '+/'\<close> is
  membership. The key is tested after the token is matched and the cell is looked up.
\<close>

definition parse_qc_part ::
  "string \<Rightarrow> string \<Rightarrow> (int \<times> cell) list \<Rightarrow> error + (int \<times> cell) list" where
  "parse_qc_part key part cs =
     (case match_qc part of
        None \<Rightarrow> Inl (Exception ''Invalid cell QC string'')
      | Some (g0, val) \<Rightarrow>
          (case map_of cs (int_str g0) of
             None \<Rightarrow> Inl KeyError
           | Some cell0 \<Rightarrow>
               if key = ''Holding:'' then
                 Inr (AList.update (int_str g0) (cell0\<lparr> holding_qc := Some (val \<in> set ''+/'') \<rparr>) cs)
               else if key = ''Access:'' then
                 Inr (AList.update (int_str g0) (cell0\<lparr> access_qc := Some (val \<in> set ''+/'') \<rparr>) cs)
               else if key = ''Spiking:'' then
                 Inr (AList.update (int_str g0) (cell0\<lparr> spiking_qc := Some (val \<in> set ''+/'') \<rparr>) cs)
               else Inl (Exception ''Invalid Cell QC line'')))"

definition parse_qc_line :: "entry \<Rightarrow> (int \<times> cell) list \<Rightarrow> error + (int \<times> cell) list" where
  "parse_qc_line ch cs =
     (let parts = re_split_ws (strip (line0 ch))
      in for_each (parse_qc_part (hd parts)) (tl parts) cs)"

definition parse_qc :: "('l, 'd) expt \<Rightarrow> entry \<Rightarrow> error + ('l, 'd) expt" where
  "parse_qc e ent =
     (case for_each parse_qc_line (children ent) (cells e) of
        Inl err \<Rightarrow> Inl err
      | Inr cs \<Rightarrow> Inr (e\<lparr> cells := cs \<rparr>))"

subsection \<open>\<^verbatim>\<open>_parse_connections\<close>\<close>

text \<open>
  The body of the loop over the lines of the section; the state is the attribute
  \<^verbatim>\<open>self._connections\<close>. \<^verbatim>\<open>append\<close> on \<^verbatim>\<open>None\<close> raises \<^verbatim>\<open>AttributeError\<close>.
\<close>

definition parse_connection_line :: "entry \<Rightarrow> pair list option \<Rightarrow> error + pair list option" where
  "parse_connection_line con conns =
     (case match_connection (strip (line0 con)) of
        None \<Rightarrow> Inl (Exception ''Invalid connection'')
      | Some (g0, g1, g2) \<Rightarrow>
          if g2 = ''?'' then Inr conns
          else (case conns of
                  None \<Rightarrow> Inl AttributeError
                | Some l \<Rightarrow> Inr (Some (l @ [(int_str g0, int_str g1)]))))"

definition parse_connections :: "('l, 'd) expt \<Rightarrow> entry \<Rightarrow> error + ('l, 'd) expt" where
  "parse_connections e ent =
     (if length (children ent) = 0 \<or> line0 (hd (children ent)) = ''None'' then Inr e
      else (case for_each parse_connection_line (children ent) (p_connections e) of
              Inl err \<Rightarrow> Inl err
            | Inr conns' \<Rightarrow> Inr (e\<lparr> p_connections := conns' \<rparr>)))"

subsection \<open>\<^verbatim>\<open>_load_old_format\<close>\<close>

text \<open>
  The attributes as \<^verbatim>\<open>__init__\<close> sets them before it loads anything. The registry is
  filled by the loaders.
\<close>

definition init_expt :: "('l, 'd) expt" where
  "init_expt = \<lparr> cells = [], p_connections = None, p_gaps = None, p_region = None,
                  p_site_path = None, p_probed = None, p_summary = None \<rparr>"

text \<open>
  \<^verbatim>\<open>except Exception as exc: raise Exception("Error parsing ...")\<close>: whatever the body
  raised leaves the handler as a plain \<^verbatim>\<open>Exception\<close>.
\<close>

definition reraise :: "error + 'a \<Rightarrow> error + 'a" where
  "reraise r = (case r of Inl err \<Rightarrow> Inl (Exception ''Error parsing'') | Inr x \<Rightarrow> Inr x)"

text \<open>
  The body of the loop over \<^verbatim>\<open>entry.children\<close>. The state is the experiment with the
  flags \<^verbatim>\<open>have_labels\<close> and \<^verbatim>\<open>have_connections\<close>. The file system is a parameter:
  \<open>site_path\<close> resolves the text after \<^verbatim>\<open>'Site path '\<close> to an absolute path and
  \<open>isdir\<close> is \<^verbatim>\<open>os.path.isdir\<close>.
\<close>

definition load_old_child ::
  "string list \<Rightarrow> string list \<Rightarrow> (string \<Rightarrow> string) \<Rightarrow> (string \<Rightarrow> bool) \<Rightarrow> entry \<Rightarrow>
   ('l, 'd) expt \<times> bool \<times> bool \<Rightarrow> error + (('l, 'd) expt \<times> bool \<times> bool)" where
  "load_old_child all_labels all_cre_types site_path isdir ch st =
     (case st of (e, have_labels, have_connections) \<Rightarrow>
      reraise
       (if line0 ch = ''Labeling'' then
          (case parse_labeling all_labels all_cre_types e ch of
             Inl err \<Rightarrow> Inl err
           | Inr e' \<Rightarrow> Inr (e', True, have_connections))
        else if line0 ch = ''Cell QC'' then
          (case parse_qc e ch of
             Inl err \<Rightarrow> Inl err
           | Inr e' \<Rightarrow> Inr (e', have_labels, have_connections))
        else if line0 ch = ''Connections'' then
          (case parse_connections (e\<lparr> p_connections := Some [] \<rparr>) ch of
             Inl err \<Rightarrow> Inl err
           | Inr e' \<Rightarrow> Inr (e', have_labels, True))
        else if line0 ch = ''Conditions'' then Inr (e, have_labels, have_connections)
        else if startswith (line0 ch) ''Region '' then
          (if length (children ch) \<noteq> 0 then Inl AssertionError
           else Inr (e\<lparr> p_region := Some (drop 7 (line0 ch)) \<rparr>, have_labels, have_connections))
        else if startswith (line0 ch) ''Site path '' then
          (if length (children ch) > 0
           then Inl (Exception ''Site path entry should not have children'')
           else (let p = site_path (drop 10 (line0 ch))
                 in if \<not> isdir p then Inl (Exception ''Invalid site path'')
                    else Inr (e\<lparr> p_site_path := Some p \<rparr>, have_labels, have_connections)))
        else Inl (Exception ''Invalid experiment entry'')))"

text \<open>
  \<^verbatim>\<open>_load_old_format\<close>: eight electrodes, each with a cell, numbered 1 to 8
  (\<open>old_cells\<close> is the registry they make); then the sections; then the check that
  both required sections were there.
\<close>

definition old_cells :: "(int \<times> cell) list" where
  "old_cells = map (\<lambda>i. (i, Cell i)) [1..8]"

definition load_old_format ::
  "string list \<Rightarrow> string list \<Rightarrow> (string \<Rightarrow> string) \<Rightarrow> (string \<Rightarrow> bool) \<Rightarrow> entry \<Rightarrow>
   error + ('l, 'd) expt" where
  "load_old_format all_labels all_cre_types site_path isdir ent =
     (let e0 = init_expt\<lparr> cells := old_cells \<rparr>
      in case for_each (load_old_child all_labels all_cre_types site_path isdir)
                (children ent) (e0, False, False) of
           Inl err \<Rightarrow> Inl err
         | Inr (e, have_labels, have_connections) \<Rightarrow>
             if have_labels = False then Inl (Exception ''missing Labeling section'')
             else if have_connections = False then Inl (Exception ''missing Connections section'')
             else Inr e)"

section \<open>The YAML loader: synapse and gap connections\<close>

text \<open>
  The second loop of \<^verbatim>\<open>_load_yml\<close>. Of the pipette metadata it reads the keys
  \<^verbatim>\<open>synapse_to\<close> and \<^verbatim>\<open>gap_to\<close>: absent (or null), or a sequence of postsynaptic ids,
  each an integer or a string.
\<close>

datatype post_id = PInt int | PStr string

record pip_meta =
  synapse_to :: "post_id list option"
  gap_to :: "post_id list option"

text \<open>
  The body of the loop over \<^verbatim>\<open>conns\<close> for the presynaptic cell \<open>pre\<close>. A string that
  does not match leaves \<^verbatim>\<open>m\<close> as \<^verbatim>\<open>None\<close>, and \<^verbatim>\<open>m.groups()\<close> raises
  \<^verbatim>\<open>AttributeError\<close> on the next line.
\<close>

definition check_post_id :: "(int \<times> cell) list \<Rightarrow> int \<Rightarrow> int \<Rightarrow> pair list \<Rightarrow> error + pair list" where
  "check_post_id cs pre post conn_list =
     (if map_of cs post = None then Inl ValueError
      else Inr (conn_list @ [(pre, post)]))"

definition load_post_id :: "(int \<times> cell) list \<Rightarrow> int \<Rightarrow> post_id \<Rightarrow> pair list \<Rightarrow> error + pair list" where
  "load_post_id cs pre post conn_list =
     (case post of
        PStr s \<Rightarrow>
          (case match_post_id s of
             None \<Rightarrow> Inl AttributeError
           | Some (g0, g1) \<Rightarrow>
               if g1 = Some ''?'' then Inr conn_list
               else check_post_id cs (pre) (int_str g0) conn_list)
      | PInt n \<Rightarrow> check_post_id cs pre n conn_list)"

text \<open>
  One round of \<^verbatim>\<open>for src, dst in [('synapse_to', '_connections'), ('gap_to', '_gaps')]\<close>:
  \<open>conns\<close> is \<^verbatim>\<open>pip_meta.get(src, None)\<close>, \<open>dst\<close> the attribute it is loaded into.
\<close>

definition load_conns ::
  "(int \<times> cell) list \<Rightarrow> int \<Rightarrow> post_id list option \<Rightarrow> pair list option \<Rightarrow>
   error + pair list option" where
  "load_conns cs pre conns dst =
     (case conns of
        None \<Rightarrow> Inr dst
      | Some posts \<Rightarrow>
          (let conn_list = (case dst of None \<Rightarrow> [] | Some l \<Rightarrow> l)
           in case for_each (load_post_id cs pre) posts conn_list of
                Inl err \<Rightarrow> Inl err
              | Inr l \<Rightarrow> Inr (Some l)))"

definition load_cell_conns ::
  "(int \<times> pip_meta) list \<Rightarrow> int \<times> cell \<Rightarrow> ('l, 'd) expt \<Rightarrow> error + ('l, 'd) expt" where
  "load_cell_conns pipettes kc e =
     (case map_of pipettes (cell_id (snd kc)) of
        None \<Rightarrow> Inl KeyError
      | Some pm \<Rightarrow>
          (case load_conns (cells e) (cell_id (snd kc)) (synapse_to pm) (p_connections e) of
             Inl err \<Rightarrow> Inl err
           | Inr c' \<Rightarrow>
               (case load_conns (cells e) (cell_id (snd kc)) (gap_to pm) (p_gaps e) of
                  Inl err \<Rightarrow> Inl err
                | Inr g' \<Rightarrow> Inr (e\<lparr> p_connections := c', p_gaps := g' \<rparr>))))"

definition load_yml_connections ::
  "(int \<times> pip_meta) list \<Rightarrow> ('l, 'd) expt \<Rightarrow> error + ('l, 'd) expt" where
  "load_yml_connections pipettes e = for_each (load_cell_conns pipettes) (cells e) e"

section \<open>The curated lists as objects\<close>

text \<open>
  For the question whether a caller can reach the experiment's own lists, lists are
  objects in a store: an address is an index into the store, and the experiment holds
  the addresses of \<^verbatim>\<open>self._connections\<close> and \<^verbatim>\<open>self._gaps\<close>. The pairs are immutable
  tuples.
\<close>

type_synonym addr = nat

type_synonym store = "pair list list"

record ('l, 'd) expt_obj =
  connections_ref :: "addr option"
  gaps_ref :: "addr option"
  attrs :: "('l, 'd) expt"

text \<open>The experiment as a value: every address replaced by the list it points to.\<close>

definition deref :: "store \<Rightarrow> ('l, 'd) expt_obj \<Rightarrow> ('l, 'd) expt" where
  "deref h ob = (attrs ob)\<lparr> p_connections := map_option (\<lambda>a. h ! a) (connections_ref ob),
                           p_gaps := map_option (\<lambda>a. h ! a) (gaps_ref ob) \<rparr>"

text \<open>\<^verbatim>\<open>xs[:]\<close> builds a new list object with the elements of \<^verbatim>\<open>xs\<close>.\<close>

definition slice_copy :: "store \<Rightarrow> addr \<Rightarrow> addr \<times> store" where
  "slice_copy h a = (length h, h @ [h ! a])"

definition connection_calls_obj :: "store \<Rightarrow> ('l, 'd) expt_obj \<Rightarrow> addr option \<times> store" where
  "connection_calls_obj h ob =
     (case connections_ref ob of
        None \<Rightarrow> (None, h)
      | Some a \<Rightarrow> (case slice_copy h a of (a', h') \<Rightarrow> (Some a', h')))"

definition gap_calls_obj :: "store \<Rightarrow> ('l, 'd) expt_obj \<Rightarrow> addr option \<times> store" where
  "gap_calls_obj h ob =
     (case gaps_ref ob of
        None \<Rightarrow> (None, h)
      | Some a \<Rightarrow> (case slice_copy h a of (a', h') \<Rightarrow> (Some a', h')))"

text \<open>
  Any in-place change of the list at address \<open>a\<close> (\<^verbatim>\<open>append\<close>, \<^verbatim>\<open>del\<close>, item
  assignment, \<^verbatim>\<open>sort\<close>, \<^verbatim>\<open>clear\<close>) leaves some new content \<open>xs\<close> there.
\<close>

definition mutate :: "store \<Rightarrow> addr \<Rightarrow> pair list \<Rightarrow> store" where
  "mutate h a xs = h[a := xs]"

text \<open>The references of an experiment point into the store.\<close>

definition valid_refs :: "store \<Rightarrow> ('l, 'd) expt_obj \<Rightarrow> bool" where
  "valid_refs h ob =
     ((case connections_ref ob of None \<Rightarrow> True | Some a \<Rightarrow> a < length h) \<and>
      (case gaps_ref ob of None \<Rightarrow> True | Some a \<Rightarrow> a < length h))"

section \<open>The grammar of the spec\<close>

text \<open>
  The definitions of this section follow the words of the specification, not the code;
  the theorems compare them with the parsers above.
\<close>

text \<open>
  A marker token of the \<^verbatim>\<open>Labeling\<close> section: "cell-id digits, optional \<^verbatim>\<open>x\<close>, optional
  \<^verbatim>\<open>+\<close>/\<^verbatim>\<open>-\<close>, optional \<^verbatim>\<open>?\<close>", and nothing else.
\<close>

definition spec_marker_suffixes :: "string list" where
  "spec_marker_suffixes =
     concat (map (\<lambda>x. concat (map (\<lambda>p. map (\<lambda>q. x @ p @ q) [[], ''?'']) [[], ''+'', ''-'']))
               [[], ''x''])"

definition spec_marker_token :: "string \<Rightarrow> bool" where
  "spec_marker_token s =
     (takeWhile is_digit s \<noteq> [] \<and> dropWhile is_digit s \<in> set spec_marker_suffixes)"

text \<open>
  A line of the \<^verbatim>\<open>Connections\<close> section, \<^verbatim>\<open><pre> -> <post> [?] [comment]\<close>, by its
  pieces: the whitespace before the first number, the two numbers, the whitespace
  around the arrow and after the second number, and the rest of the line, which starts
  with no whitespace and, right after the second number, with no digit. The line is
  questionable when the rest starts with the question mark.
\<close>

record conn_text =
  indent :: string
  pre_text :: string
  sep1 :: string
  sep2 :: string
  post_text :: string
  sep3 :: string
  rest_text :: string

definition conn_line :: "conn_text \<Rightarrow> string" where
  "conn_line t =
     indent t @ pre_text t @ sep1 t @ ''->'' @ sep2 t @ post_text t @ sep3 t @ rest_text t"

definition conn_wf :: "conn_text \<Rightarrow> bool" where
  "conn_wf t =
     (list_all is_space (indent t) \<and>
      pre_text t \<noteq> [] \<and> list_all is_digit (pre_text t) \<and>
      post_text t \<noteq> [] \<and> list_all is_digit (post_text t) \<and>
      list_all is_space (sep1 t) \<and> list_all is_space (sep2 t) \<and> list_all is_space (sep3 t) \<and>
      (rest_text t = [] \<or>
       (\<not> is_space (hd (rest_text t)) \<and> (sep3 t = [] \<longrightarrow> \<not> is_digit (hd (rest_text t))))))"

definition questionable :: "conn_text \<Rightarrow> bool" where
  "questionable t = startswith (rest_text t) ''?''"

definition conn_pair :: "conn_text \<Rightarrow> pair" where
  "conn_pair t = (int_str (pre_text t), int_str (post_text t))"

text \<open>
  A line of the \<^verbatim>\<open>Labeling\<close> section, \<^verbatim>\<open><name>: <marker> <marker> ...\<close>: the name, the
  colon, and the marker tokens, each after the whitespace that separates it from what
  is before. Neither the name nor a token has whitespace in it.
\<close>

definition label_line :: "string \<Rightarrow> (string \<times> string) list \<Rightarrow> string" where
  "label_line name tokens = name @ '':'' @ concat (map (\<lambda>sw. fst sw @ snd sw) tokens)"

definition label_line_wf :: "string \<Rightarrow> (string \<times> string) list \<Rightarrow> bool" where
  "label_line_wf name tokens =
     (list_all (\<lambda>c. \<not> is_space c) name \<and>
      list_all (\<lambda>sw. fst sw \<noteq> [] \<and> list_all is_space (fst sw) \<and>
                     snd sw \<noteq> [] \<and> list_all (\<lambda>c. \<not> is_space c) (snd sw)) tokens)"

text \<open>The target layer that each of the legacy names \<^verbatim>\<open>L1\<close>, \<^verbatim>\<open>L23pyr\<close>, ... stands for.\<close>

definition legacy_layers :: "(string \<times> string) list" where
  "legacy_layers =
     [(''L1'', ''1''), (''L23pyr'', ''2/3''), (''L4pyr'', ''4''), (''L5pyr'', ''5''),
      (''L6pyr'', ''6'')]"

text \<open>The normalisation of the numeric layer text.\<close>

definition normal_layer :: "string \<Rightarrow> string" where
  "normal_layer l = (if l = ''23'' then ''2/3'' else l)"

section \<open>Example data\<close>

text \<open>
  A registry of two cells of one cre type: cell 1 passes every QC, cell 2 passes holding
  and access but fails spiking. Both connections were called; only 1 to 2 was probed.
\<close>

definition ex_cre_type :: "cell \<Rightarrow> string option" where
  "ex_cre_type c = (case map_of (labels c) ''sim1'' of Some (Some m) \<Rightarrow> Some ''sim1'' | _ \<Rightarrow> None)"

definition ex_target_layer :: "cell \<Rightarrow> string" where
  "ex_target_layer c = (case p_target_layer c of None \<Rightarrow> [] | Some l \<Rightarrow> l)"

definition ex_distance :: "cell \<Rightarrow> cell \<Rightarrow> int" where
  "ex_distance c d = abs (cell_id c - cell_id d)"

definition ex_cell1 :: cell where
  "ex_cell1 = (Cell 1)\<lparr> labels := [(''sim1'', Some ''+'')], holding_qc := Some True,
                         access_qc := Some True, spiking_qc := Some True \<rparr>"

definition ex_cell2 :: cell where
  "ex_cell2 = (Cell 2)\<lparr> labels := [(''sim1'', Some ''+'')], holding_qc := Some True,
                         access_qc := Some True, spiking_qc := Some False \<rparr>"

definition ex_expt :: "(string, int) expt" where
  "ex_expt = init_expt\<lparr> cells := [(1, ex_cell1), (2, ex_cell2)],
                         p_connections := Some [(1, 2), (2, 1)] \<rparr>"

text \<open>A file system without directories, and paths taken as they are written.\<close>

definition ex_isdir :: "string \<Rightarrow> bool" where
  "ex_isdir p = False"

definition ex_site_path :: "string \<Rightarrow> string" where
  "ex_site_path p = p"

text \<open>
  An old-format entry: cell 1 is positive for \<^verbatim>\<open>sim1\<close>, the cells 2 to 8 are negative,
  and one connection is reported, to a cell 9, which the loader never creates.
  \<open>ex_labelled_cells\<close> is the registry after the \<^verbatim>\<open>Labeling\<close> section.
\<close>

definition ex_entry_missing_cell :: entry where
  "ex_entry_missing_cell =
     Entry ''2017.03.20-0-0''
       [Entry ''Labeling'' [Entry ''sim1: 1+ 2- 3- 4- 5- 6- 7- 8-'' []],
        Entry ''Connections'' [Entry ''2 -> 9'' []]]"

definition ex_labelled_cells :: "(int \<times> cell) list" where
  "ex_labelled_cells =
     map (\<lambda>i. (i, (Cell i)\<lparr> p_raw_labels := [(''sim1'', if i = 1 then ''+'' else ''-'')],
                              labels := [(''sim1'', Some (if i = 1 then ''+'' else ''-''))] \<rparr>))
       [1..8]"

text \<open>Pipette metadata of the two example cells without any \<^verbatim>\<open>synapse_to\<close> key.\<close>

definition ex_pipettes :: "(int \<times> pip_meta) list" where
  "ex_pipettes =
     [(1, \<lparr> synapse_to = None, gap_to = Some [PInt 2] \<rparr>),
      (2, \<lparr> synapse_to = None, gap_to = None \<rparr>)]"

text \<open>An experiment object whose two curated lists live at the addresses 0 and 1.\<close>

definition ex_store :: store where
  "ex_store = [[(1, 2), (2, 1)], [(1, 2)]]"

definition ex_obj :: "(string, int) expt_obj" where
  "ex_obj = \<lparr> connections_ref = Some 0, gaps_ref = Some 1, attrs = ex_expt \<rparr>"

section \<open>Properties of the derived views\<close>

subsection \<open>Reading the cached views\<close>

lemma connections_cached:
  "p_probed e = Some pr \<Longrightarrow> p_connections e = Some calls \<Longrightarrow>
   connections ct e = (Some (filter (\<lambda>c. c \<in> set pr) calls), e)"
  by (simp add: connections_def connection_calls_def connections_probed_def)

lemma connections_probed_cached:
  "p_probed e = Some pr \<Longrightarrow> connections_probed ct e = (pr, e)"
  by (simp add: connections_probed_def)

lemma connections_probed_first:
  "p_probed e = None \<Longrightarrow>
   connections_probed ct e = (probed_loop ct (cells e), e\<lparr>p_probed := Some (probed_loop ct (cells e))\<rparr>)"
  by (simp add: connections_probed_def Let_def)

lemma probe_pair_iff:
  "p \<in> set (probe_pair ct (i, ci) (j, cj)) \<longleftrightarrow>
     p = (i, j) \<and> i \<noteq> j \<and> spiking_qc ci = Some True \<and> pass_qc cj = Some True \<and>
     ct ci \<noteq> None \<and> ct cj \<noteq> None"
  by (auto simp: probe_pair_def)

lemma probed_loop_iff:
  "(i, j) \<in> set (probed_loop ct cs) \<longleftrightarrow>
     (\<exists>ci cj. (i, ci) \<in> set cs \<and> (j, cj) \<in> set cs \<and> i \<noteq> j \<and>
        spiking_qc ci = Some True \<and> pass_qc cj = Some True \<and> ct ci \<noteq> None \<and> ct cj \<noteq> None)"
proof
  assume "(i, j) \<in> set (probed_loop ct cs)"
  then obtain a ci b cj where
    "(a, ci) \<in> set cs" "(b, cj) \<in> set cs" "(i, j) \<in> set (probe_pair ct (a, ci) (b, cj))"
    by (auto simp: probed_loop_def)
  then show "\<exists>ci cj. (i, ci) \<in> set cs \<and> (j, cj) \<in> set cs \<and> i \<noteq> j \<and>
        spiking_qc ci = Some True \<and> pass_qc cj = Some True \<and> ct ci \<noteq> None \<and> ct cj \<noteq> None"
    by (auto simp: probe_pair_iff)
next
  assume "\<exists>ci cj. (i, ci) \<in> set cs \<and> (j, cj) \<in> set cs \<and> i \<noteq> j \<and>
        spiking_qc ci = Some True \<and> pass_qc cj = Some True \<and> ct ci \<noteq> None \<and> ct cj \<noteq> None"
  then obtain ci cj where h: "(i, ci) \<in> set cs" "(j, cj) \<in> set cs"
    "(i, j) \<in> set (probe_pair ct (i, ci) (j, cj))"
    by (auto simp: probe_pair_iff)
  then show "(i, j) \<in> set (probed_loop ct cs)"
    unfolding probed_loop_def by auto
qed

lemma probed_loop_keys:
  "p \<in> set (probed_loop ct cs) \<Longrightarrow> map_of cs (fst p) \<noteq> None \<and> map_of cs (snd p) \<noteq> None"
proof -
  assume a: "p \<in> set (probed_loop ct cs)"
  obtain i j where p: "p = (i, j)" by (cases p)
  from a [unfolded p probed_loop_iff] obtain ci cj where "(i, ci) \<in> set cs" "(j, cj) \<in> set cs"
    by auto
  then have "i \<in> fst ` set cs" "j \<in> fst ` set cs" by force+
  then show ?thesis
    by (simp add: p map_of_eq_None_iff)
qed

text \<open>
  Claim C1. When the curated connection list exists, \<^verbatim>\<open>connections\<close> returns a list,
  and every pair of it is in the list that \<^verbatim>\<open>connections_probed\<close> returns, read
  before or after.
\<close>

theorem connections_subset_probed:
  "p_connections e = Some calls \<Longrightarrow>
   (\<exists>cs e'. connections ct e = (Some cs, e') \<and>
      set cs \<subseteq> set (fst (connections_probed ct e)) \<and>
      set cs \<subseteq> set (fst (connections_probed ct e')))"
  by (cases "p_probed e")
    (auto simp: connections_def connection_calls_def connections_probed_def Let_def)

theorem connections_subset_probed_witness:
  "p_connections ex_expt = Some [(1, 2), (2, 1)] \<and>
   (\<exists>cs e'. connections ex_cre_type ex_expt = (Some cs, e') \<and>
      set cs \<subseteq> set (fst (connections_probed ex_cre_type ex_expt)) \<and>
      set cs \<subseteq> set (fst (connections_probed ex_cre_type e')))"
  using connections_subset_probed [of ex_expt "[(1, 2), (2, 1)]" ex_cre_type]
  by (simp add: ex_expt_def init_expt_def)

text \<open>
  Claim C3. On the first read of \<^verbatim>\<open>connections_probed\<close>, the pair \<open>(i, j)\<close> is in the
  result exactly when \<open>i\<close> and \<open>j\<close> are different cells of the registry, the spiking QC
  of cell \<open>i\<close> is \<^verbatim>\<open>True\<close>, \<^verbatim>\<open>pass_qc\<close> of cell \<open>j\<close> is \<^verbatim>\<open>True\<close> and both have a cre
  type; no pair \<open>(i, i)\<close> is in it; and a second read returns the same list.
\<close>

theorem connections_probed_iff:
  assumes "distinct (map fst (cells e))" and "p_probed e = None"
  shows "((i, j) \<in> set (fst (connections_probed ct e)) \<longleftrightarrow>
          (\<exists>ci cj. map_of (cells e) i = Some ci \<and> map_of (cells e) j = Some cj \<and> i \<noteq> j \<and>
             spiking_qc ci = Some True \<and> pass_qc cj = Some True \<and>
             ct ci \<noteq> None \<and> ct cj \<noteq> None))
         \<and> (i, i) \<notin> set (fst (connections_probed ct e))
         \<and> connections_probed ct (snd (connections_probed ct e)) =
             (fst (connections_probed ct e), snd (connections_probed ct e))"
  using assms
  by (simp add: connections_probed_first connections_probed_cached probed_loop_iff)

theorem connections_probed_iff_witness:
  "distinct (map fst (cells ex_expt)) \<and> p_probed ex_expt = None \<and>
   (1, 2) \<in> set (fst (connections_probed ex_cre_type ex_expt)) \<and>
   (2, 1) \<notin> set (fst (connections_probed ex_cre_type ex_expt))"
  using connections_probed_iff [of ex_expt 1 2 ex_cre_type]
    connections_probed_iff [of ex_expt 2 1 ex_cre_type]
  by (simp add: ex_expt_def init_expt_def ex_cell1_def ex_cell2_def Cell_def pass_qc_def
      ex_cre_type_def)

subsection \<open>The counts of the summary\<close>

lemma summary_count_distinct:
  assumes "distinct (map fst s)"
  shows "summary_count F s = sum_list (map (\<lambda>kv. F (snd kv)) s)"
proof -
  have h: "map ((\<lambda>k. case map_of s k of None \<Rightarrow> 0 | Some v \<Rightarrow> F v) \<circ> fst) s
        = map (\<lambda>kv. F (snd kv)) s"
    by (rule map_cong) (use assms in auto)
  show ?thesis
    unfolding summary_count_def map_map by (simp only: h)
qed

lemma sum_update_new:
  "map_of s k = None \<Longrightarrow>
   sum_list (map (\<lambda>kv. F (snd kv)) (AList.update k v s)) = sum_list (map (\<lambda>kv. F (snd kv)) s) + (F v :: nat)"
  by (induction s) (auto split: if_splits)

lemma sum_map_entry:
  "map_of s k = Some v0 \<Longrightarrow> (\<And>v. F (g v) = F v + (n :: nat)) \<Longrightarrow>
   sum_list (map (\<lambda>kv. F (snd kv)) (AList.map_entry k g s)) = sum_list (map (\<lambda>kv. F (snd kv)) s) + n"
  by (induction s) (auto split: if_splits)

lemma summary_loop_counts:
  assumes "p_probed e = Some pr" and "p_connections e = Some calls"
    and "\<forall>p\<in>set ps. map_of (cells e) (fst p) \<noteq> None \<and> map_of (cells e) (snd p) \<noteq> None"
    and "distinct (map fst csum)"
  shows "\<exists>csum'. summary_loop ct lay dist e ps csum = Inr (csum', e) \<and>
           distinct (map fst csum') \<and>
           sum_list (map (\<lambda>kv. connected (snd kv)) csum') =
             sum_list (map (\<lambda>kv. connected (snd kv)) csum)
             + length (filter (\<lambda>p. p \<in> set (filter (\<lambda>c. c \<in> set pr) calls)) ps) \<and>
           sum_list (map (\<lambda>kv. unconnected (snd kv)) csum') =
             sum_list (map (\<lambda>kv. unconnected (snd kv)) csum)
             + length (filter (\<lambda>p. p \<notin> set (filter (\<lambda>c. c \<in> set pr) calls)) ps)"
  using assms(3,4)
proof (induction ps arbitrary: csum)
  case Nil
  then show ?case by simp
next
  case (Cons ij rest)
  obtain ci cj where ci: "map_of (cells e) (fst ij) = Some ci"
    and cj: "map_of (cells e) (snd ij) = Some cj"
    using Cons.prems(1) by auto
  define ty where "ty = ((lay ci, ct ci), (lay cj, ct cj))"
  define csum1 where "csum1 = (if map_of csum ty = None then AList.update ty new_entry csum else csum)"
  define g where "g = (if ij \<in> set (filter (\<lambda>c. c \<in> set pr) calls)
                      then add_connected (dist ci cj) else add_unconnected (dist ci cj) :: 'b csum_entry \<Rightarrow> 'b csum_entry)"
  define csum2 where "csum2 = AList.map_entry ty g csum1"
  have d1: "distinct (map fst csum1)"
    using Cons.prems(2) by (simp add: csum1_def distinct_update)
  have in1: "map_of csum1 ty \<noteq> None"
    by (simp add: csum1_def update_conv')
  then obtain v0 where v0: "map_of csum1 ty = Some v0" by auto
  have c1: "sum_list (map (\<lambda>kv. connected (snd kv)) csum1) = sum_list (map (\<lambda>kv. connected (snd kv)) csum)"
    and u1: "sum_list (map (\<lambda>kv. unconnected (snd kv)) csum1) = sum_list (map (\<lambda>kv. unconnected (snd kv)) csum)"
    by (simp_all add: csum1_def sum_update_new new_entry_def)
  have d2: "distinct (map fst csum2)"
    using d1 by (simp add: csum2_def distinct_map_entry)
  have c2: "sum_list (map (\<lambda>kv. connected (snd kv)) csum2) =
            sum_list (map (\<lambda>kv. connected (snd kv)) csum)
            + (if ij \<in> set (filter (\<lambda>c. c \<in> set pr) calls) then 1 else 0)"
    unfolding csum2_def c1 [symmetric]
    by (rule sum_map_entry [OF v0]) (simp add: g_def add_connected_def add_unconnected_def)
  have u2: "sum_list (map (\<lambda>kv. unconnected (snd kv)) csum2) =
            sum_list (map (\<lambda>kv. unconnected (snd kv)) csum)
            + (if ij \<in> set (filter (\<lambda>c. c \<in> set pr) calls) then 0 else 1)"
    unfolding csum2_def u1 [symmetric]
    by (rule sum_map_entry [OF v0]) (simp add: g_def add_connected_def add_unconnected_def)
  have step: "summary_loop ct lay dist e (ij # rest) csum = summary_loop ct lay dist e rest csum2"
    using ci cj
    by (simp add: connections_cached [OF assms(1,2)] Let_def ty_def [symmetric]
        csum1_def [symmetric] csum2_def g_def)
  from Cons.IH [OF _ d2] Cons.prems(1)
  obtain csum' where r: "summary_loop ct lay dist e rest csum2 = Inr (csum', e)"
    "distinct (map fst csum')"
    "sum_list (map (\<lambda>kv. connected (snd kv)) csum') =
       sum_list (map (\<lambda>kv. connected (snd kv)) csum2)
       + length (filter (\<lambda>p. p \<in> set (filter (\<lambda>c. c \<in> set pr) calls)) rest)"
    "sum_list (map (\<lambda>kv. unconnected (snd kv)) csum') =
       sum_list (map (\<lambda>kv. unconnected (snd kv)) csum2)
       + length (filter (\<lambda>p. p \<notin> set (filter (\<lambda>c. c \<in> set pr) calls)) rest)"
    by auto
  show ?case
    unfolding step using r c2 u2 by auto
qed

text \<open>
  Claim C2. For an experiment whose curated connection list exists and whose summary is
  not cached yet (the probed pairs not read yet or cached by an earlier read),
  \<^verbatim>\<open>summary()\<close> returns a dictionary whose connected and unconnected counts, summed
  over its keys, give the length of \<^verbatim>\<open>connections_probed\<close> of that experiment: the
  connected counts add up to the number of probed pairs that are in \<^verbatim>\<open>connections\<close>,
  the unconnected counts to the number of the others. The call changes the two caches
  only, so \<^verbatim>\<open>connections_probed\<close>, \<^verbatim>\<open>connections\<close> and \<^verbatim>\<open>summary()\<close> read afterwards
  return the same values.
\<close>

theorem summary_counts_probed:
  assumes "p_connections e = Some calls"
    and "p_probed e = None \<or> p_probed e = Some (probed_loop ct (cells e))"
    and "p_summary e = None"
  shows "\<exists>s e'.
           summary ct lay dist e = Inr (Some s, e') \<and>
           cells e' = cells e \<and> p_connections e' = p_connections e \<and> p_gaps e' = p_gaps e \<and>
           p_probed e' = Some (probed_loop ct (cells e)) \<and> p_summary e' = Some s \<and>
           fst (connections_probed ct e) = probed_loop ct (cells e) \<and>
           fst (connections ct e) =
             Some (filter (\<lambda>c. c \<in> set (probed_loop ct (cells e))) calls) \<and>
           connections_probed ct e' = (fst (connections_probed ct e), e') \<and>
           connections ct e' = (fst (connections ct e), e') \<and>
           summary ct lay dist e' = Inr (Some s, e') \<and>
           summary_total s = length (fst (connections_probed ct e)) \<and>
           summary_count connected s =
             length (filter (\<lambda>p. p \<in> set (filter (\<lambda>c. c \<in> set (probed_loop ct (cells e))) calls))
                       (probed_loop ct (cells e))) \<and>
           summary_count unconnected s =
             length (filter (\<lambda>p. p \<notin> set (filter (\<lambda>c. c \<in> set (probed_loop ct (cells e))) calls))
                       (probed_loop ct (cells e)))"
proof -
  define pr where "pr = probed_loop ct (cells e)"
  define e1 where "e1 = e\<lparr> p_probed := Some pr \<rparr>"
  define conns where "conns = filter (\<lambda>c. c \<in> set pr) calls"
  have e1: "p_probed e1 = Some pr" "p_connections e1 = Some calls" "p_summary e1 = None"
    "cells e1 = cells e"
    using assms by (simp_all add: e1_def)
  have probed0: "fst (connections_probed ct e) = pr"
  proof (cases "p_probed e")
    case None
    then show ?thesis by (simp add: connections_probed_first pr_def)
  next
    case (Some p)
    then have "p_probed e = Some pr" using assms(2) by (simp add: pr_def)
    then show ?thesis by (simp add: connections_probed_cached)
  qed
  have first: "connections ct e = (Some conns, e1)"
  proof (cases "p_probed e")
    case None
    then show ?thesis
      using assms(1)
      by (simp add: connections_def connection_calls_def connections_probed_first pr_def
          e1_def conns_def)
  next
    case (Some p)
    then have "p_probed e = Some pr" using assms(2) by (simp add: pr_def)
    moreover from this have "e1 = e" by (simp add: e1_def)
    ultimately show ?thesis
      using connections_cached [OF _ assms(1), of pr ct] by (simp add: conns_def)
  qed
  have keys: "\<forall>p\<in>set pr. map_of (cells e1) (fst p) \<noteq> None \<and> map_of (cells e1) (snd p) \<noteq> None"
    unfolding pr_def e1(4) using probed_loop_keys by blast
  from summary_loop_counts [OF e1(1,2) keys, of "[]" ct lay dist]
  obtain s where s: "summary_loop ct lay dist e1 pr [] = Inr (s, e1)"
    "distinct (map fst s)"
    "sum_list (map (\<lambda>kv. connected (snd kv)) s) = length (filter (\<lambda>p. p \<in> set conns) pr)"
    "sum_list (map (\<lambda>kv. unconnected (snd kv)) s) = length (filter (\<lambda>p. p \<notin> set conns) pr)"
    by (auto simp: conns_def)
  define e2 where "e2 = e1\<lparr> p_summary := Some s \<rparr>"
  have res: "summary ct lay dist e = Inr (Some s, e2)"
    by (simp add: summary_def first e1(3) connections_probed_cached [OF e1(1)] s(1) e2_def)
  have e2: "p_probed e2 = Some pr" "p_connections e2 = Some calls"
    by (simp_all add: e2_def e1)
  have frame: "cells e2 = cells e" "p_connections e2 = p_connections e" "p_gaps e2 = p_gaps e"
    "p_summary e2 = Some s"
    by (simp_all add: e2_def e1_def)
  have again: "summary ct lay dist e2 = Inr (Some s, e2)"
    by (simp add: summary_def connections_cached [OF e2] frame(4))
  have tot: "summary_total s = summary_count connected s + summary_count unconnected s"
    by (simp add: summary_total_def summary_count_distinct [OF s(2)] sum_list_addf)
  have len: "length (filter (\<lambda>p. p \<in> set conns) pr) + length (filter (\<lambda>p. p \<notin> set conns) pr) = length pr"
    by (simp add: sum_length_filter_compl)
  have cnt: "summary_count connected s = length (filter (\<lambda>p. p \<in> set conns) pr)"
    "summary_count unconnected s = length (filter (\<lambda>p. p \<notin> set conns) pr)"
    using s(3,4) by (simp_all add: summary_count_distinct [OF s(2)])
  have total: "summary_total s = length pr"
    using tot cnt len by simp
  have "summary ct lay dist e = Inr (Some s, e2) \<and>
        cells e2 = cells e \<and> p_connections e2 = p_connections e \<and> p_gaps e2 = p_gaps e \<and>
        p_probed e2 = Some pr \<and> p_summary e2 = Some s \<and>
        fst (connections_probed ct e) = pr \<and>
        fst (connections ct e) = Some conns \<and>
        connections_probed ct e2 = (fst (connections_probed ct e), e2) \<and>
        connections ct e2 = (fst (connections ct e), e2) \<and>
        summary ct lay dist e2 = Inr (Some s, e2) \<and>
        summary_total s = length (fst (connections_probed ct e)) \<and>
        summary_count connected s = length (filter (\<lambda>p. p \<in> set conns) pr) \<and>
        summary_count unconnected s = length (filter (\<lambda>p. p \<notin> set conns) pr)"
    using res frame e2(1) probed0 first connections_probed_cached [OF e2(1), of ct]
      connections_cached [OF e2, of ct] again total cnt
    by (simp add: conns_def)
  then show ?thesis
    unfolding conns_def pr_def by blast
qed

lemma ex_probed: "probed_loop ex_cre_type (cells ex_expt) = [(1, 2)]"
  by (simp add: probed_loop_def probe_pair_def ex_expt_def init_expt_def ex_cell1_def
      ex_cell2_def Cell_def pass_qc_def ex_cre_type_def)

theorem summary_counts_probed_witness:
  "p_connections ex_expt = Some [(1, 2), (2, 1)] \<and> p_probed ex_expt = None \<and>
   p_summary ex_expt = None \<and>
   (\<exists>s e'. summary ex_cre_type ex_target_layer ex_distance ex_expt = Inr (Some s, e') \<and>
       cells e' = cells ex_expt \<and>
       connections_probed ex_cre_type e' = ([(1, 2)], e') \<and>
       connections ex_cre_type e' = (Some [(1, 2)], e') \<and>
       summary_total s = 1 \<and> summary_count connected s = 1 \<and> summary_count unconnected s = 0)"
proof -
  have h: "p_connections ex_expt = Some [(1, 2), (2, 1)]" "p_probed ex_expt = None"
    "p_summary ex_expt = None"
    by (simp_all add: ex_expt_def init_expt_def)
  from summary_counts_probed [OF h(1) disjI1 [OF h(2)] h(3),
      of ex_cre_type ex_target_layer ex_distance]
  show ?thesis
    unfolding ex_probed using h by auto
qed

section \<open>Properties of the old-format parsers\<close>

subsection \<open>Runs of digits and of whitespace\<close>

lemma space_not_digit: "is_space c \<Longrightarrow> \<not> is_digit c"
  by (auto simp: is_space_def is_digit_def)

lemma digit_not_space: "is_digit c \<Longrightarrow> \<not> is_space c"
  using space_not_digit by blast

lemma span_all:
  assumes "list_all P xs" and "ys = [] \<or> \<not> P (hd ys)"
  shows "takeWhile P (xs @ ys) = xs" and "dropWhile P (xs @ ys) = ys"
proof -
  have a: "\<And>x. x \<in> set xs \<Longrightarrow> P x" using assms(1) by (simp add: list_all_iff)
  have t: "takeWhile P ys = []" and d: "dropWhile P ys = ys"
    using assms(2) by (cases ys; simp)+
  show "takeWhile P (xs @ ys) = xs" by (simp add: takeWhile_append2 a t)
  show "dropWhile P (xs @ ys) = ys" by (simp add: dropWhile_append2 a d)
qed

lemma spaces_then_no_digit:
  assumes "list_all is_space w" and "ys = [] \<or> \<not> is_digit (hd ys)"
  shows "w @ ys = [] \<or> \<not> is_digit (hd (w @ ys))"
  using assms by (cases w) (auto simp: space_not_digit)

lemma rstrip_append_Cons:
  assumes "\<not> is_space c"
  shows "rev (dropWhile is_space (rev (a @ c # r))) = a @ c # rev (dropWhile is_space (rev r))"
  using assms by (simp add: dropWhile_append)

lemma rstrip_spaces:
  assumes "list_all is_space w" and "a \<noteq> []" and "\<not> is_space (last a)"
  shows "rev (dropWhile is_space (rev (a @ w))) = a"
proof -
  have "\<forall>x\<in>set (rev w). is_space x" using assms(1) by (simp add: list_all_iff)
  moreover have "dropWhile is_space (rev a) = rev a"
    using assms(2,3) by (cases a rule: rev_cases) auto
  ultimately show ?thesis by (simp add: dropWhile_append)
qed

subsection \<open>The \<^verbatim>\<open>Connections\<close> section\<close>

lemma match_connection_line:
  assumes "conn_wf t" and "indent t = []"
  shows "match_connection (conn_line t) =
           Some (pre_text t, post_text t, if questionable t then ''?'' else [])"
proof -
  let ?Z = "sep3 t @ rest_text t"
  let ?Y = "sep2 t @ post_text t @ ?Z"
  let ?X = "sep1 t @ ''->'' @ ?Y"
  from assms(1) have pre: "pre_text t \<noteq> []" "list_all is_digit (pre_text t)"
    and post: "post_text t \<noteq> []" "list_all is_digit (post_text t)"
    and sp: "list_all is_space (sep1 t)" "list_all is_space (sep2 t)" "list_all is_space (sep3 t)"
    and rest: "rest_text t = [] \<or>
      (\<not> is_space (hd (rest_text t)) \<and> (sep3 t = [] \<longrightarrow> \<not> is_digit (hd (rest_text t))))"
    by (simp_all add: conn_wf_def)
  have line: "conn_line t = pre_text t @ ?X" by (simp add: conn_line_def assms(2))
  have arrow_digit: "''->'' @ ?Y = [] \<or> \<not> is_digit (hd (''->'' @ ?Y))"
    by (simp add: is_digit_def)
  have X: "?X = [] \<or> \<not> is_digit (hd ?X)"
    by (rule spaces_then_no_digit [where ys = "''->'' @ ?Y", OF sp(1) arrow_digit])
  have d1: "takeWhile is_digit (conn_line t) = pre_text t"
    and r0: "dropWhile is_digit (conn_line t) = ?X"
    unfolding line by (rule span_all [where ys = ?X, OF pre(2) X])+
  have arrow_space: "''->'' @ ?Y = [] \<or> \<not> is_space (hd (''->'' @ ?Y))"
    by (simp add: is_space_def)
  have r1: "dropWhile is_space ?X = ''->'' @ ?Y"
    by (rule span_all(2) [where ys = "''->'' @ ?Y", OF sp(1) arrow_space])
  have pZ: "post_text t @ ?Z = [] \<or> \<not> is_space (hd (post_text t @ ?Z))"
    using post by (cases "post_text t") (auto simp: digit_not_space)
  have r2: "dropWhile is_space ?Y = post_text t @ ?Z"
    by (rule span_all(2) [where ys = "post_text t @ ?Z", OF sp(2) pZ])
  have Z: "?Z = [] \<or> \<not> is_digit (hd ?Z)"
  proof (cases "sep3 t")
    case Nil
    then show ?thesis using rest by auto
  next
    case (Cons c cs)
    then have "is_space c" using sp(3) by simp
    then show ?thesis using Cons by (simp add: space_not_digit)
  qed
  have d2: "takeWhile is_digit (post_text t @ ?Z) = post_text t"
    and r2': "dropWhile is_digit (post_text t @ ?Z) = ?Z"
    by (rule span_all [where ys = ?Z, OF post(2) Z])+
  have r3: "dropWhile is_space ?Z = rest_text t"
    by (rule span_all(2) [where ys = "rest_text t", OF sp(3)]) (use rest in auto)
  show ?thesis
    unfolding match_connection_def d1 r0 r1
    by (simp add: Let_def startswith_def r2 d2 r2' r3 pre(1) post(1) questionable_def)
qed

lemma strip_conn_line:
  assumes "conn_wf t"
  shows "\<exists>t'. strip (conn_line t) = conn_line t' \<and> conn_wf t' \<and> indent t' = [] \<and>
               pre_text t' = pre_text t \<and> post_text t' = post_text t \<and>
               questionable t' = questionable t"
proof -
  let ?core = "pre_text t @ sep1 t @ ''->'' @ sep2 t @ post_text t @ sep3 t @ rest_text t"
  from assms have ind: "list_all is_space (indent t)"
    and pre: "pre_text t \<noteq> []" "list_all is_digit (pre_text t)"
    and post: "post_text t \<noteq> []" "list_all is_digit (post_text t)"
    and sp3: "list_all is_space (sep3 t)"
    and rest: "rest_text t = [] \<or>
      (\<not> is_space (hd (rest_text t)) \<and> (sep3 t = [] \<longrightarrow> \<not> is_digit (hd (rest_text t))))"
    by (simp_all add: conn_wf_def)
  have "?core = [] \<or> \<not> is_space (hd ?core)"
    using pre by (cases "pre_text t") (auto simp: digit_not_space)
  from span_all(2) [where ys = ?core, OF ind this]
  have lead: "dropWhile is_space (conn_line t) = ?core"
    by (simp add: conn_line_def)
  show ?thesis
  proof (cases "rest_text t")
    case Nil
    let ?a = "pre_text t @ sep1 t @ ''->'' @ sep2 t @ post_text t"
    let ?t = "t\<lparr> indent := [], sep3 := [] \<rparr>"
    have "\<not> is_space (last ?a)"
      using post by (cases "post_text t" rule: rev_cases) (auto simp: digit_not_space)
    then have "rev (dropWhile is_space (rev (?a @ sep3 t))) = ?a"
      by (intro rstrip_spaces [OF sp3]) auto
    then have "strip (conn_line t) = conn_line ?t"
      unfolding strip_def lead by (simp add: conn_line_def Nil)
    moreover have "conn_wf ?t"
      using assms Nil by (simp add: conn_wf_def)
    ultimately show ?thesis
      by (intro exI [of _ ?t]) (simp add: questionable_def)
  next
    case (Cons c r)
    let ?a = "pre_text t @ sep1 t @ ''->'' @ sep2 t @ post_text t @ sep3 t"
    let ?t = "t\<lparr> indent := [], rest_text := c # rev (dropWhile is_space (rev r)) \<rparr>"
    have c: "\<not> is_space c" "sep3 t = [] \<longrightarrow> \<not> is_digit c" using rest Cons by auto
    have "rev (dropWhile is_space (rev (?a @ c # r))) = ?a @ c # rev (dropWhile is_space (rev r))"
      by (rule rstrip_append_Cons [OF c(1)])
    then have "strip (conn_line t) = conn_line ?t"
      unfolding strip_def lead by (simp add: conn_line_def Cons)
    moreover have "conn_wf ?t"
      using assms c by (simp add: conn_wf_def)
    ultimately show ?thesis
      by (intro exI [of _ ?t]) (simp add: questionable_def startswith_def Cons)
  qed
qed

lemma parse_connection_line_wf:
  assumes "conn_wf t"
  shows "parse_connection_line (Entry (conn_line t) chs) (Some conns) =
           Inr (Some (if questionable t then conns else conns @ [conn_pair t]))"
proof -
  from strip_conn_line [OF assms] obtain t' where t': "strip (conn_line t) = conn_line t'"
    "conn_wf t'" "indent t' = []" "pre_text t' = pre_text t" "post_text t' = post_text t"
    "questionable t' = questionable t"
    by blast
  show ?thesis
    by (simp add: parse_connection_line_def t'(1) match_connection_line [OF t'(2,3)] t'(4,5,6)
        conn_pair_def)
qed

lemma for_each_connection_lines:
  assumes "\<forall>t\<in>set ts. conn_wf t"
  shows "for_each parse_connection_line (map (\<lambda>t. Entry (conn_line t) []) ts) (Some conns) =
           Inr (Some (conns @ map conn_pair (filter (\<lambda>t. \<not> questionable t) ts)))"
  using assms
  by (induction ts arbitrary: conns) (simp_all add: parse_connection_line_wf)

lemma conn_line_not_None:
  assumes "conn_wf t"
  shows "conn_line t \<noteq> ''None''"
proof
  assume e: "conn_line t = ''None''"
  have "is_space (hd (conn_line t)) \<or> is_digit (hd (conn_line t))"
  proof (cases "indent t")
    case Nil
    then show ?thesis
      using assms by (cases "pre_text t") (auto simp: conn_wf_def conn_line_def)
  next
    case (Cons c cs)
    then show ?thesis
      using assms by (auto simp: conn_wf_def conn_line_def)
  qed
  then show False
    unfolding e by (simp add: is_space_def is_digit_def)
qed

text \<open>
  Claim C7. For a \<^verbatim>\<open>Connections\<close> section whose lines follow the grammar
  \<^verbatim>\<open><pre> -> <post> [?] [comment]\<close>, the parser appends to the curated list, in the
  order of the lines, the pair of every line that is not marked with the question mark,
  once per line, and nothing for a marked line.
\<close>

theorem parse_connections_lines:
  assumes "\<forall>t\<in>set ts. conn_wf t" and "p_connections e = Some conns"
  shows "parse_connections e (Entry section_line (map (\<lambda>t. Entry (conn_line t) []) ts)) =
           Inr (e\<lparr> p_connections :=
                     Some (conns @ map conn_pair (filter (\<lambda>t. \<not> questionable t) ts)) \<rparr>)"
proof (cases ts)
  case Nil
  then show ?thesis using assms(2) by (simp add: parse_connections_def)
next
  case (Cons t ts')
  have "conn_wf t" using assms(1) Cons by simp
  then have "conn_line t \<noteq> ''None''" by (rule conn_line_not_None)
  then show ?thesis
    using for_each_connection_lines [OF assms(1), of conns] assms(2)
    by (simp add: parse_connections_def Cons)
qed

theorem parse_connections_lines_witness:
  "parse_connections (init_expt\<lparr> p_connections := Some [] \<rparr>)
     (Entry ''Connections''
        [Entry ''2 -> 5 ?'' [], Entry ''2 -> 5'' [], Entry ''  3->4 2nd try?'' []]) =
   Inr (init_expt\<lparr> p_connections := Some [(2, 5), (3, 4)] \<rparr>)"
  using parse_connections_lines
    [of "[\<lparr> indent = [], pre_text = ''2'', sep1 = '' '', sep2 = '' '', post_text = ''5'',
            sep3 = '' '', rest_text = ''?'' \<rparr>,
          \<lparr> indent = [], pre_text = ''2'', sep1 = '' '', sep2 = '' '', post_text = ''5'',
            sep3 = [], rest_text = [] \<rparr>,
          \<lparr> indent = ''  '', pre_text = ''3'', sep1 = [], sep2 = [], post_text = ''4'',
            sep3 = '' '', rest_text = ''2nd try?'' \<rparr>]"
        "init_expt\<lparr> p_connections := Some [] \<rparr>" "[]" "''Connections''"]
  by (simp add: conn_wf_def conn_line_def questionable_def conn_pair_def is_digit_def is_space_def
      startswith_def int_str_def init_expt_def)

subsection \<open>Marker tokens of the \<^verbatim>\<open>Labeling\<close> section\<close>

lemma match_label_record_no_digit:
  "part = [] \<or> \<not> is_digit (hd part) \<Longrightarrow> match_label_record part = None"
  by (cases part) (auto simp: match_label_record_def)

text \<open>
  The match of one token and the values derived from it: the two tokens \<^verbatim>\<open>"3+"\<close> and
  \<^verbatim>\<open>"4x?"\<close> (the marker group itself is kept as \<^verbatim>\<open>positive\<close>), and a string that does
  not start with a decimal digit, on which the match fails.
\<close>

lemma parse_label_record_examples:
  "parse_label_record ''3+'' =
     Inr \<lparr> lr_cell_id = 3, absent = False, positive = Some ''+'', uncertain = False,
           raw_label = ''+'' \<rparr> \<and>
   parse_label_record ''4x?'' =
     Inr \<lparr> lr_cell_id = 4, absent = True, positive = None, uncertain = True,
           raw_label = ''x?'' \<rparr> \<and>
   (\<forall>part. part = [] \<or> \<not> is_digit (hd part) \<longrightarrow>
      parse_label_record part = Inl (Exception ''invalid label record''))"
  by (simp add: parse_label_record_def match_label_record_no_digit)
     (simp add: match_label_record_def is_digit_def opt_group_def int_str_def)

text \<open>
  Claim C5 at the token \<^verbatim>\<open>"5y"\<close>, which is not a marker token of the grammar: the
  match succeeds on the prefix \<^verbatim>\<open>5\<close>, because \<^verbatim>\<open>re.match\<close> does not look at what
  follows it, and the line \<^verbatim>\<open>sim1: 5y\<close> is parsed without an error, as cell 5 with no
  marker: the raw label is empty and \<^verbatim>\<open>labels['sim1']\<close> is \<^verbatim>\<open>None\<close>.
\<close>

theorem label_record_accepts_5y:
  "\<not> spec_marker_token ''5y'' \<and>
   parse_label_record ''5y'' =
     Inr \<lparr> lr_cell_id = 5, absent = False, positive = None, uncertain = False, raw_label = [] \<rparr> \<and>
   parse_labeling_line [] [''sim1''] (Entry ''sim1: 5y'' []) [(5, Cell 5)] =
     Inr [(5, (Cell 5)\<lparr> p_raw_labels := [(''sim1'', [])], labels := [(''sim1'', None)] \<rparr>)]"
  by (simp add: spec_marker_token_def spec_marker_suffixes_def parse_label_record_def
      match_label_record_def is_digit_def opt_group_def int_str_def parse_labeling_line_def
      re_split_ws_def is_space_def endswith_def valid_label_name_def parse_label_part_def
      strip_def startswith_def layer_labels_def Cell_def Let_def)

subsection \<open>Tokens of the \<^verbatim>\<open>Cell QC\<close> section\<close>

lemma match_qc_shape:
  assumes "ds \<noteq> []" and "list_all is_digit ds" and "mk \<in> set ''+/-?''"
  shows "match_qc (ds @ mk # rest) = Some (ds, mk)"
proof -
  have "\<not> is_digit mk" using assms(3) by (auto simp: is_digit_def)
  then have "mk # rest = [] \<or> \<not> is_digit (hd (mk # rest))" by simp
  from span_all [where ys = "mk # rest", OF assms(2) this] show ?thesis
    using assms(1,3) by (simp add: match_qc_def)
qed

lemma match_qc_Some:
  assumes "match_qc part = Some (g0, val)"
  shows "\<exists>rest. part = g0 @ val # rest \<and> g0 \<noteq> [] \<and> list_all is_digit g0 \<and> val \<in> set ''+/-?''"
proof -
  from assms obtain cs where g0: "g0 = takeWhile is_digit part" "g0 \<noteq> []"
    and d: "dropWhile is_digit part = val # cs" and v: "val \<in> set ''+/-?''"
    by (auto simp: match_qc_def Let_def split: if_splits list.splits)
  have "part = g0 @ val # cs"
    using takeWhile_dropWhile_id [of is_digit part] by (simp add: g0(1) d)
  moreover have "list_all is_digit g0"
    unfolding g0(1) list_all_iff by (auto dest: set_takeWhileD)
  ultimately show ?thesis using g0(2) v by blast
qed

text \<open>
  The loop body on one token. When the token starts with the digits of a cell of the
  registry followed by one of the four symbols, the flag of the key is set to the
  truth value of "the symbol is \<^verbatim>\<open>+\<close> or \<^verbatim>\<open>/\<close>". When the token does not start so,
  the body raises \<^verbatim>\<open>Invalid cell QC string\<close>, and under a key other than the three it
  raises on every token.
\<close>

lemma parse_qc_part_cases:
  "(ds \<noteq> [] \<and> list_all is_digit ds \<and> mk \<in> set ''+/-?'' \<and> map_of cs (int_str ds) = Some c \<longrightarrow>
      parse_qc_part ''Holding:'' (ds @ mk # rest) cs =
        Inr (AList.update (int_str ds)
               (c\<lparr> holding_qc := Some (mk = CHR ''+'' \<or> mk = CHR ''/'') \<rparr>) cs) \<and>
      parse_qc_part ''Access:'' (ds @ mk # rest) cs =
        Inr (AList.update (int_str ds)
               (c\<lparr> access_qc := Some (mk = CHR ''+'' \<or> mk = CHR ''/'') \<rparr>) cs) \<and>
      parse_qc_part ''Spiking:'' (ds @ mk # rest) cs =
        Inr (AList.update (int_str ds)
               (c\<lparr> spiking_qc := Some (mk = CHR ''+'' \<or> mk = CHR ''/'') \<rparr>) cs)) \<and>
   ((\<nexists>ds mk rest. part = ds @ mk # rest \<and> ds \<noteq> [] \<and> list_all is_digit ds \<and>
        mk \<in> set ''+/-?'') \<longrightarrow>
      parse_qc_part key part cs = Inl (Exception ''Invalid cell QC string'')) \<and>
   (key \<notin> {''Holding:'', ''Access:'', ''Spiking:''} \<longrightarrow>
      (\<exists>err. parse_qc_part key part cs = Inl err))"
proof (intro conjI impI)
  assume a: "ds \<noteq> [] \<and> list_all is_digit ds \<and> mk \<in> set ''+/-?'' \<and> map_of cs (int_str ds) = Some c"
  then have m: "match_qc (ds @ mk # rest) = Some (ds, mk)" by (simp add: match_qc_shape)
  have v: "(mk \<in> set ''+/'') = (mk = CHR ''+'' \<or> mk = CHR ''/'')" by auto
  show "parse_qc_part ''Holding:'' (ds @ mk # rest) cs =
        Inr (AList.update (int_str ds) (c\<lparr> holding_qc := Some (mk = CHR ''+'' \<or> mk = CHR ''/'') \<rparr>) cs)"
    using a by (simp add: parse_qc_part_def m v del: set_simps)
  show "parse_qc_part ''Access:'' (ds @ mk # rest) cs =
        Inr (AList.update (int_str ds) (c\<lparr> access_qc := Some (mk = CHR ''+'' \<or> mk = CHR ''/'') \<rparr>) cs)"
    using a by (simp add: parse_qc_part_def m v del: set_simps)
  show "parse_qc_part ''Spiking:'' (ds @ mk # rest) cs =
        Inr (AList.update (int_str ds) (c\<lparr> spiking_qc := Some (mk = CHR ''+'' \<or> mk = CHR ''/'') \<rparr>) cs)"
    using a by (simp add: parse_qc_part_def m v del: set_simps)
next
  assume n: "\<nexists>ds mk rest. part = ds @ mk # rest \<and> ds \<noteq> [] \<and> list_all is_digit ds \<and> mk \<in> set ''+/-?''"
  have "match_qc part = None"
  proof (cases "match_qc part")
    case (Some g)
    then obtain g0 val where "match_qc part = Some (g0, val)" by (cases g) auto
    from match_qc_Some [OF this] n show ?thesis by blast
  qed simp
  then show "parse_qc_part key part cs = Inl (Exception ''Invalid cell QC string'')"
    by (simp add: parse_qc_part_def)
next
  assume k: "key \<notin> {''Holding:'', ''Access:'', ''Spiking:''}"
  then have k': "key \<noteq> ''Holding:''" "key \<noteq> ''Access:''" "key \<noteq> ''Spiking:''" by auto
  show "\<exists>err. parse_qc_part key part cs = Inl err"
    by (simp add: parse_qc_part_def k' split: option.splits prod.splits)
qed

lemma parse_qc_part_examples:
  "parse_qc_part ''Spiking:'' ''6/'' old_cells =
     Inr (AList.update 6 ((Cell 6)\<lparr> spiking_qc := Some True \<rparr>) old_cells) \<and>
   parse_qc_part ''Spiking:'' ''6'' old_cells = Inl (Exception ''Invalid cell QC string'') \<and>
   (\<exists>err. parse_qc_part ''Bridge:'' ''6+'' old_cells = Inl err)"
proof -
  have c: "map_of old_cells (int_str ''6'') = Some (Cell 6)"
    by (simp add: old_cells_def int_str_def upto.simps)
  have "\<nexists>ds mk rest. ''6'' = ds @ mk # rest \<and> ds \<noteq> [] \<and> list_all is_digit ds \<and> mk \<in> set ''+/-?''"
  proof
    assume "\<exists>ds mk rest. ''6'' = ds @ mk # rest \<and> ds \<noteq> [] \<and> list_all is_digit ds \<and> mk \<in> set ''+/-?''"
    then obtain ds mk rest where e: "''6'' = ds @ mk # rest" and d: "ds \<noteq> []" by blast
    from e have "length ''6'' = length (ds @ mk # rest)" by (rule arg_cong)
    with d show False by (cases ds) simp_all
  qed
  then show ?thesis
    using parse_qc_part_cases [of "''6''" "CHR ''/''" old_cells "Cell 6" "[]" "''6''" "''Spiking:''"]
      parse_qc_part_cases [of "''6''" "CHR ''+''" old_cells "Cell 6" "[]" "''6+''" "''Bridge:''"] c
    by (simp add: is_digit_def int_str_def)
qed

text \<open>
  Claim C4 at the line \<^verbatim>\<open>Holding: 3?\<close>: the holding flag of cell 3, unknown
  (\<^verbatim>\<open>None\<close>) before, becomes \<^verbatim>\<open>False\<close>, the value that \<^verbatim>\<open>Holding: 3-\<close> stores,
  although the docstring of \<^verbatim>\<open>_parse_qc\<close> reads \<^verbatim>\<open>?\<close> as unknown.
\<close>

theorem qc_question_mark_stored_false:
  "parse_qc_part ''Holding:'' ''3?'' [(3, Cell 3)] = Inr [(3, (Cell 3)\<lparr> holding_qc := Some False \<rparr>)] \<and>
   parse_qc_part ''Holding:'' ''3-'' [(3, Cell 3)] = Inr [(3, (Cell 3)\<lparr> holding_qc := Some False \<rparr>)] \<and>
   holding_qc (Cell 3) = None \<and>
   parse_qc_line (Entry ''Holding: 3?'' []) [(3, Cell 3)] =
     Inr [(3, (Cell 3)\<lparr> holding_qc := Some False \<rparr>)] \<and>
   parse_qc_line (Entry ''Holding: 3-'' []) [(3, Cell 3)] =
     Inr [(3, (Cell 3)\<lparr> holding_qc := Some False \<rparr>)]"
  by (simp add: parse_qc_line_def strip_def re_split_ws_def is_space_def parse_qc_part_def
      match_qc_def is_digit_def int_str_def Cell_def)

text \<open>
  A whole line, through \<^verbatim>\<open>strip\<close> and \<^verbatim>\<open>re.split\<close>; cell 8 is not on it. The key
  is tested inside the loop over the tokens, so a line that has an unknown key and no
  token passes, and the match does not look behind the symbol.
\<close>

lemma parse_qc_line_example:
  "parse_qc_line (Entry ''Bridge:'' []) old_cells = Inr old_cells \<and>
   parse_qc_part ''Holding:'' ''3+junk'' [(3, Cell 3)] =
     Inr [(3, (Cell 3)\<lparr> holding_qc := Some True \<rparr>)] \<and>
   map_option holding_qc (map_of old_cells 7) = Some None \<and>
   (case parse_qc_line (Entry ''  Holding: 1- 2+ 6/ 7?'' []) old_cells of
      Inl err \<Rightarrow> False
    | Inr cs \<Rightarrow> map (\<lambda>i. map_option holding_qc (map_of cs i)) [1, 2, 6, 7, 8] =
                 [Some (Some False), Some (Some True), Some (Some True), Some (Some False), Some None])"
  by (simp add: parse_qc_line_def strip_def re_split_ws_def is_space_def for_each.simps
      parse_qc_part_def match_qc_def is_digit_def int_str_def old_cells_def upto.simps Cell_def)

subsection \<open>Legacy layer names in the \<^verbatim>\<open>Labeling\<close> section\<close>

lemma layer_label_text:
  assumes "map_of legacy_layers cre = Some layer"
  shows "cre \<in> set layer_labels" and "\<not> startswith cre ''human_''"
    and "(let l = rstrip_chars ''pyr'' (lstrip_chars ''L'' cre) in if l = ''23'' then ''2/3'' else l) = layer"
proof -
  from assms have c: "cre = ''L1'' \<and> layer = ''1'' \<or> cre = ''L23pyr'' \<and> layer = ''2/3'' \<or>
      cre = ''L4pyr'' \<and> layer = ''4'' \<or> cre = ''L5pyr'' \<and> layer = ''5'' \<or>
      cre = ''L6pyr'' \<and> layer = ''6''"
    by (auto simp: legacy_layers_def split: if_splits)
  from c show "cre \<in> set layer_labels" by (auto simp: layer_labels_def)
  from c show "\<not> startswith cre ''human_''" by (auto simp: startswith_def)
  from c show "(let l = rstrip_chars ''pyr'' (lstrip_chars ''L'' cre) in if l = ''23'' then ''2/3'' else l) = layer"
    by (auto simp: rstrip_chars_def lstrip_chars_def)
qed

lemma human_not_layer_label: "''human_'' @ l # txt \<notin> set layer_labels"
  by (auto simp: layer_labels_def)

lemma re_split_word:
  assumes "list_all (\<lambda>c. \<not> is_space c) w"
  shows "re_split_ws_from False cur (w @ rest) = re_split_ws_from False (rev w @ cur) rest"
  using assms by (induction w arbitrary: cur) simp_all

lemma re_split_word_after_space:
  assumes "list_all (\<lambda>c. \<not> is_space c) w" and "w \<noteq> []"
  shows "re_split_ws_from True [] (w @ rest) = re_split_ws_from False (rev w) rest"
proof (cases w)
  case Nil
  then show ?thesis using assms(2) by simp
next
  case (Cons c w')
  then have "\<not> is_space c" "list_all (\<lambda>c. \<not> is_space c) w'" using assms(1) by simp_all
  then show ?thesis
    using re_split_word [of w' "[c]" rest] by (simp add: Cons)
qed

lemma re_split_spaces:
  assumes "list_all is_space s"
  shows "re_split_ws_from True cur (s @ rest) = re_split_ws_from True cur rest"
  using assms by (induction s) simp_all

lemma re_split_separator:
  assumes "list_all is_space s" and "s \<noteq> []"
  shows "re_split_ws_from False cur (s @ rest) = rev cur # re_split_ws_from True [] rest"
proof (cases s)
  case Nil
  then show ?thesis using assms(2) by simp
next
  case (Cons c s')
  then have "is_space c" "list_all is_space s'" using assms(1) by simp_all
  then show ?thesis
    by (simp add: Cons re_split_spaces)
qed

lemma re_split_tokens:
  assumes "list_all (\<lambda>sw. fst sw \<noteq> [] \<and> list_all is_space (fst sw) \<and>
                     snd sw \<noteq> [] \<and> list_all (\<lambda>c. \<not> is_space c) (snd sw)) tokens"
  shows "re_split_ws_from False cur (concat (map (\<lambda>sw. fst sw @ snd sw) tokens)) =
           rev cur # map snd tokens"
  using assms
proof (induction tokens arbitrary: cur)
  case Nil
  then show ?case by simp
next
  case (Cons sw tokens)
  then have s: "list_all is_space (fst sw)" "fst sw \<noteq> []"
    and w: "list_all (\<lambda>c. \<not> is_space c) (snd sw)" "snd sw \<noteq> []"
    and rest: "list_all (\<lambda>sw. fst sw \<noteq> [] \<and> list_all is_space (fst sw) \<and>
                     snd sw \<noteq> [] \<and> list_all (\<lambda>c. \<not> is_space c) (snd sw)) tokens"
    by simp_all
  let ?R = "concat (map (\<lambda>sw. fst sw @ snd sw) tokens)"
  have "re_split_ws_from False cur (fst sw @ snd sw @ ?R) =
          rev cur # re_split_ws_from True [] (snd sw @ ?R)"
    by (rule re_split_separator [OF s])
  also have "re_split_ws_from True [] (snd sw @ ?R) = re_split_ws_from False (rev (snd sw)) ?R"
    by (rule re_split_word_after_space [OF w])
  also have "\<dots> = snd sw # map snd tokens"
    using Cons.IH [OF rest, of "rev (snd sw)"] by simp
  finally show ?case by simp
qed

lemma re_split_label_line:
  assumes "label_line_wf name tokens"
  shows "re_split_ws (label_line name tokens) = (name @ '':'') # map snd tokens"
proof -
  have n: "list_all (\<lambda>c. \<not> is_space c) (name @ '':'')"
    using assms by (simp add: label_line_wf_def is_space_def)
  have t: "list_all (\<lambda>sw. fst sw \<noteq> [] \<and> list_all is_space (fst sw) \<and>
                     snd sw \<noteq> [] \<and> list_all (\<lambda>c. \<not> is_space c) (snd sw)) tokens"
    using assms by (simp add: label_line_wf_def)
  have "re_split_ws (label_line name tokens) =
          re_split_ws_from False [] ((name @ '':'') @ concat (map (\<lambda>sw. fst sw @ snd sw) tokens))"
    by (simp add: re_split_ws_def label_line_def)
  also have "\<dots> = re_split_ws_from False (rev (name @ '':''))
                      (concat (map (\<lambda>sw. fst sw @ snd sw) tokens))"
    using re_split_word [OF n, of "[]"] by simp
  also have "\<dots> = (name @ '':'') # map snd tokens"
    using re_split_tokens [OF t, of "rev (name @ '':'')"] by simp
  finally show ?thesis .
qed

lemma strip_no_space:
  assumes "list_all (\<lambda>c. \<not> is_space c) w"
  shows "strip w = w"
proof -
  have a: "dropWhile is_space w = w"
    by (cases w) (use assms in auto)
  have b: "dropWhile is_space (rev w) = rev w"
    by (cases w rule: rev_cases) (use assms in auto)
  show ?thesis by (simp add: strip_def a b)
qed

lemma parse_labeling_line_wf:
  assumes "label_line_wf name tokens"
  shows "parse_labeling_line all_labels all_cre_types (Entry (label_line name tokens) chs) cs =
           (if \<not> valid_label_name all_labels all_cre_types name
            then Inl (Exception ''Invalid label or cre type'')
            else if map snd tokens = [''?''] then Inr cs
            else for_each (parse_label_part name) (map snd tokens) cs)"
proof -
  have one: "length (map snd tokens) = 1 \<and> strip (((name @ '':'') # map snd tokens) ! 1) = ''?''
             \<longleftrightarrow> map snd tokens = [''?'']"
  proof (cases tokens)
    case Nil
    then show ?thesis by simp
  next
    case (Cons sw ts)
    then have "list_all (\<lambda>c. \<not> is_space c) (snd sw)"
      using assms by (simp add: label_line_wf_def)
    then have "strip (snd sw) = snd sw" by (rule strip_no_space)
    then show ?thesis by (auto simp: Cons)
  qed
  show ?thesis
    using one
    by (simp add: parse_labeling_line_def re_split_label_line [OF assms] endswith_def Let_def)
qed

text \<open>The loop body on one marker token, by the three branches of the code.\<close>

lemma parse_label_part_cases:
  assumes "parse_label_record part = Inr r" and "map_of cs (lr_cell_id r) = Some c"
  shows
   "(map_of legacy_layers cre = Some layer \<longrightarrow>
       parse_label_part cre part cs =
         Inr (AList.update (lr_cell_id r)
               (c\<lparr> p_raw_labels := AList.update cre (raw_label r) (p_raw_labels c),
                   p_target_layer := Some layer \<rparr>) cs)) \<and>
    (positive r = Some ''+'' \<and> list_all is_ascii txt \<longrightarrow>
       parse_label_part (''human_'' @ l # txt) part cs =
         Inr (AList.update (lr_cell_id r)
               (c\<lparr> p_raw_labels := AList.update (''human_'' @ l # txt) (raw_label r) (p_raw_labels c),
                   p_target_layer := Some (normal_layer (upper txt)) \<rparr>) cs)) \<and>
    (cre \<notin> set layer_labels \<and> \<not> (startswith cre ''human_'' \<and> positive r = Some ''+'') \<and>
     map_of (labels c) cre = None \<longrightarrow>
       parse_label_part cre part cs =
         Inr (AList.update (lr_cell_id r)
               (c\<lparr> p_raw_labels := AList.update cre (raw_label r) (p_raw_labels c),
                   labels := AList.update cre (positive r) (labels c) \<rparr>) cs))"
proof (intro conjI impI)
  assume a: "map_of legacy_layers cre = Some layer"
  show "parse_label_part cre part cs =
         Inr (AList.update (lr_cell_id r)
               (c\<lparr> p_raw_labels := AList.update cre (raw_label r) (p_raw_labels c),
                   p_target_layer := Some layer \<rparr>) cs)"
    using layer_label_text [OF a] assms
    by (simp add: parse_label_part_def Let_def)
next
  assume a: "positive r = Some ''+'' \<and> list_all is_ascii txt"
  have h: "startswith (''human_'' @ l # txt) ''human_''" by (simp add: startswith_def)
  show "parse_label_part (''human_'' @ l # txt) part cs =
         Inr (AList.update (lr_cell_id r)
               (c\<lparr> p_raw_labels := AList.update (''human_'' @ l # txt) (raw_label r) (p_raw_labels c),
                   p_target_layer := Some (normal_layer (upper txt)) \<rparr>) cs)"
    using assms a h
    by (simp add: parse_label_part_def Let_def normal_layer_def)
next
  assume a: "cre \<notin> set layer_labels \<and> \<not> (startswith cre ''human_'' \<and> positive r = Some ''+'') \<and>
     map_of (labels c) cre = None"
  show "parse_label_part cre part cs =
         Inr (AList.update (lr_cell_id r)
               (c\<lparr> p_raw_labels := AList.update cre (raw_label r) (p_raw_labels c),
                   labels := AList.update cre (positive r) (labels c) \<rparr>) cs)"
    using assms a
    by (auto simp add: parse_label_part_def Let_def)
qed

lemma ex_record_3plus:
  "parse_label_record ''3+'' =
     Inr \<lparr> lr_cell_id = 3, absent = False, positive = Some ''+'', uncertain = False,
           raw_label = ''+'' \<rparr>"
  by (simp add: parse_label_record_def match_label_record_def is_digit_def opt_group_def
      int_str_def)


text \<open>
  Claim C8, as the code has it. A line of the \<^verbatim>\<open>Labeling\<close> section raises
  \<^verbatim>\<open>Invalid label or cre type\<close> when its name is outside the vocabulary, is skipped when
  its only token is \<^verbatim>\<open>?\<close>, and otherwise hands its tokens one after the other to the
  loop body. There, for a marker token that parses and names a cell of the registry:
  under one of the names \<^verbatim>\<open>L1\<close>, \<^verbatim>\<open>L23pyr\<close>, \<^verbatim>\<open>L4pyr\<close>, \<^verbatim>\<open>L5pyr\<close>, \<^verbatim>\<open>L6pyr\<close> the token
  sets the target layer (\<^verbatim>\<open>2/3\<close> for 23) and leaves \<^verbatim>\<open>labels\<close> as it is; under a name
  \<^verbatim>\<open>human_\<close> plus one character plus an ASCII layer text, a token with the marker
  \<^verbatim>\<open>+\<close> sets the target layer to the upper-cased layer text (\<^verbatim>\<open>2/3\<close> for 23) and
  leaves \<^verbatim>\<open>labels\<close> as it is; every other token, also one without \<^verbatim>\<open>+\<close> under a
  \<^verbatim>\<open>human_\<close> name, stores its marker group under the name in \<^verbatim>\<open>labels\<close>, where the
  cell has no entry for the name yet, and leaves the target layer as it is.
\<close>

theorem label_line_layer_or_label:
  "(label_line_wf name tokens \<longrightarrow>
      parse_labeling_line all_labels all_cre_types (Entry (label_line name tokens) chs) cs0 =
        (if \<not> valid_label_name all_labels all_cre_types name
         then Inl (Exception ''Invalid label or cre type'')
         else if map snd tokens = [''?''] then Inr cs0
         else for_each (parse_label_part name) (map snd tokens) cs0)) \<and>
   (parse_label_record part = Inr r \<and> map_of cs (lr_cell_id r) = Some c \<longrightarrow>
      (map_of legacy_layers cre = Some layer \<longrightarrow>
         parse_label_part cre part cs =
           Inr (AList.update (lr_cell_id r)
                 (c\<lparr> p_raw_labels := AList.update cre (raw_label r) (p_raw_labels c),
                     p_target_layer := Some layer \<rparr>) cs)) \<and>
      (positive r = Some ''+'' \<and> list_all is_ascii txt \<longrightarrow>
         parse_label_part (''human_'' @ l # txt) part cs =
           Inr (AList.update (lr_cell_id r)
                 (c\<lparr> p_raw_labels := AList.update (''human_'' @ l # txt) (raw_label r) (p_raw_labels c),
                     p_target_layer := Some (normal_layer (upper txt)) \<rparr>) cs)) \<and>
      (cre \<notin> set layer_labels \<and> \<not> (startswith cre ''human_'' \<and> positive r = Some ''+'') \<and>
       map_of (labels c) cre = None \<longrightarrow>
         parse_label_part cre part cs =
           Inr (AList.update (lr_cell_id r)
                 (c\<lparr> p_raw_labels := AList.update cre (raw_label r) (p_raw_labels c),
                     labels := AList.update cre (positive r) (labels c) \<rparr>) cs)))"
proof (intro conjI impI)
  assume "label_line_wf name tokens"
  then show "parse_labeling_line all_labels all_cre_types (Entry (label_line name tokens) chs) cs0 =
        (if \<not> valid_label_name all_labels all_cre_types name
         then Inl (Exception ''Invalid label or cre type'')
         else if map snd tokens = [''?''] then Inr cs0
         else for_each (parse_label_part name) (map snd tokens) cs0)"
    by (rule parse_labeling_line_wf)
next
  assume a: "parse_label_record part = Inr r \<and> map_of cs (lr_cell_id r) = Some c"
  then have r: "parse_label_record part = Inr r" and c: "map_of cs (lr_cell_id r) = Some c"
    by simp_all
  have t: "(map_of legacy_layers cre = Some layer \<longrightarrow>
       parse_label_part cre part cs =
         Inr (AList.update (lr_cell_id r)
               (c\<lparr> p_raw_labels := AList.update cre (raw_label r) (p_raw_labels c),
                   p_target_layer := Some layer \<rparr>) cs)) \<and>
    (positive r = Some ''+'' \<and> list_all is_ascii txt \<longrightarrow>
       parse_label_part (''human_'' @ l # txt) part cs =
         Inr (AList.update (lr_cell_id r)
               (c\<lparr> p_raw_labels := AList.update (''human_'' @ l # txt) (raw_label r) (p_raw_labels c),
                   p_target_layer := Some (normal_layer (upper txt)) \<rparr>) cs)) \<and>
    (cre \<notin> set layer_labels \<and> \<not> (startswith cre ''human_'' \<and> positive r = Some ''+'') \<and>
     map_of (labels c) cre = None \<longrightarrow>
       parse_label_part cre part cs =
         Inr (AList.update (lr_cell_id r)
               (c\<lparr> p_raw_labels := AList.update cre (raw_label r) (p_raw_labels c),
                   labels := AList.update cre (positive r) (labels c) \<rparr>) cs))"
    by (rule parse_label_part_cases [OF r c])
  {
    assume "map_of legacy_layers cre = Some layer"
    with t show "parse_label_part cre part cs =
           Inr (AList.update (lr_cell_id r)
                 (c\<lparr> p_raw_labels := AList.update cre (raw_label r) (p_raw_labels c),
                     p_target_layer := Some layer \<rparr>) cs)"
      by blast
  }
  {
    assume "positive r = Some ''+'' \<and> list_all is_ascii txt"
    with t show "parse_label_part (''human_'' @ l # txt) part cs =
           Inr (AList.update (lr_cell_id r)
                 (c\<lparr> p_raw_labels := AList.update (''human_'' @ l # txt) (raw_label r) (p_raw_labels c),
                     p_target_layer := Some (normal_layer (upper txt)) \<rparr>) cs)"
      by blast
  }
  {
    assume "cre \<notin> set layer_labels \<and> \<not> (startswith cre ''human_'' \<and> positive r = Some ''+'') \<and>
       map_of (labels c) cre = None"
    with t show "parse_label_part cre part cs =
           Inr (AList.update (lr_cell_id r)
                 (c\<lparr> p_raw_labels := AList.update cre (raw_label r) (p_raw_labels c),
                     labels := AList.update cre (positive r) (labels c) \<rparr>) cs)"
      by blast
  }
qed

theorem label_line_layer_or_label_witness:
  "parse_labeling_line [] [''sim1''] (Entry ''human_L23: 3+  4-'' []) [(3, Cell 3), (4, Cell 4)] =
     for_each (parse_label_part ''human_L23'') [''3+'', ''4-''] [(3, Cell 3), (4, Cell 4)] \<and>
   parse_labeling_line [] [''sim1''] (Entry ''foo: 3+'' []) [(3, Cell 3)] =
     Inl (Exception ''Invalid label or cre type'') \<and>
   parse_label_part ''L23pyr'' ''3+'' [(3, Cell 3)] =
     Inr [(3, (Cell 3)\<lparr> p_raw_labels := [(''L23pyr'', ''+'')], p_target_layer := Some ''2/3'' \<rparr>)] \<and>
   parse_label_part ''human_L23'' ''3+'' [(3, Cell 3)] =
     Inr [(3, (Cell 3)\<lparr> p_raw_labels := [(''human_L23'', ''+'')], p_target_layer := Some ''2/3'' \<rparr>)] \<and>
   parse_label_part ''sim1'' ''3+'' [(3, Cell 3)] =
     Inr [(3, (Cell 3)\<lparr> p_raw_labels := [(''sim1'', ''+'')], labels := [(''sim1'', Some ''+'')] \<rparr>)]"
proof -
  let ?r = "\<lparr> lr_cell_id = 3, absent = False, positive = Some ''+'', uncertain = False,
           raw_label = ''+'' \<rparr>"
  have c: "map_of [(3, Cell 3)] (lr_cell_id ?r) = Some (Cell 3)" by simp
  have w1: "label_line_wf ''human_L23'' [('' '', ''3+''), (''  '', ''4-'')]"
    and w2: "label_line_wf ''foo'' [('' '', ''3+'')]"
    by (simp_all add: label_line_wf_def is_space_def)
  have v1: "valid_label_name [] [''sim1''] ''human_L23''"
    and v2: "\<not> valid_label_name [] [''sim1''] ''foo''"
    by (simp_all add: valid_label_name_def startswith_def lower_def lower_char_def
        layer_labels_def)
  have a: "list_all is_ascii ''23''" by (simp add: is_ascii_def)
  show ?thesis
    using label_line_layer_or_label [of "''human_L23''" "[('' '', ''3+''), (''  '', ''4-'')]"
        "[]" "[''sim1'']" "[]" "[(3, Cell 3), (4, Cell 4)]" "''3+''" ?r "[(3, Cell 3)]" "Cell 3"
        "''L23pyr''" "''2/3''" "''23''" "CHR ''L''"]
      label_line_layer_or_label [of "''foo''" "[('' '', ''3+'')]"
        "[]" "[''sim1'']" "[]" "[(3, Cell 3)]" "''3+''" ?r "[(3, Cell 3)]" "Cell 3"
        "''sim1''" "''x''" "''23''" "CHR ''L''"]
      ex_record_3plus c w1 w2 v1 v2 a
    by (simp add: label_line_def legacy_layers_def layer_labels_def startswith_def
        normal_layer_def upper_def upper_char_def Cell_def)
qed

text \<open>
  Claim C8 as stated fails: under the legacy name \<^verbatim>\<open>human_L23\<close> the token \<^verbatim>\<open>"3-"\<close>
  gets an entry in \<^verbatim>\<open>labels\<close> and sets no target layer, because the redirection asks
  for the marker \<^verbatim>\<open>+\<close>.
\<close>

theorem human_negative_token_is_label:
  "parse_label_part ''human_L23'' ''3-'' [(3, Cell 3)] =
     Inr [(3, (Cell 3)\<lparr> p_raw_labels := [(''human_L23'', ''-'')],
                          labels := [(''human_L23'', Some ''-'')] \<rparr>)] \<and>
   p_target_layer (Cell 3) = None"
  by (simp add: parse_label_part_def parse_label_record_def match_label_record_def is_digit_def
      opt_group_def int_str_def startswith_def layer_labels_def Cell_def)

section \<open>Properties of the loaders\<close>

subsection \<open>No curated list, or an empty one\<close>

lemma load_cell_conns_no_synapse:
  assumes "\<forall>pm. map_of pipettes (cell_id (snd kc)) = Some pm \<longrightarrow> synapse_to pm = None"
    and "load_cell_conns pipettes kc e = Inr e'"
  shows "p_connections e' = p_connections e"
  using assms
  by (auto simp: load_cell_conns_def load_conns_def split: option.splits sum.splits)

lemma for_each_no_synapse:
  assumes "\<forall>kc\<in>set ks. \<forall>pm. map_of pipettes (cell_id (snd kc)) = Some pm \<longrightarrow> synapse_to pm = None"
    and "for_each (load_cell_conns pipettes) ks e = Inr e'"
  shows "p_connections e' = p_connections e"
  using assms
proof (induction ks arbitrary: e)
  case Nil
  then show ?case by simp
next
  case (Cons kc ks)
  from Cons.prems(2) obtain e1 where e1: "load_cell_conns pipettes kc e = Inr e1"
    and rest: "for_each (load_cell_conns pipettes) ks e1 = Inr e'"
    by (auto split: sum.splits)
  have "p_connections e1 = p_connections e"
    using load_cell_conns_no_synapse [OF _ e1] Cons.prems(1) by simp
  moreover have "p_connections e' = p_connections e1"
    using Cons.IH [OF _ rest] Cons.prems(1) by simp
  ultimately show ?case by simp
qed

lemma views_without_calls:
  assumes "p_connections e = None"
  shows "connection_calls e = None" and "connections ct e = (None, e)"
    and "summary ct lay dist e = Inr (None, e)"
  using assms by (simp_all add: connection_calls_def connections_def summary_def)

text \<open>
  Claim C10. The YAML loader starts from \<^verbatim>\<open>self._connections = None\<close>. When the
  metadata of no cell's pipette has a \<^verbatim>\<open>synapse_to\<close> entry and the loader returns, the
  attribute is still \<^verbatim>\<open>None\<close>, and \<^verbatim>\<open>connection_calls\<close>, \<^verbatim>\<open>connections\<close> and
  \<^verbatim>\<open>summary()\<close> return \<^verbatim>\<open>None\<close>. In the old format a \<^verbatim>\<open>Connections\<close> section
  without lines, or with the line \<^verbatim>\<open>None\<close>, leaves the empty list, which
  \<^verbatim>\<open>connection_calls\<close> and \<^verbatim>\<open>connections\<close> return.
\<close>

theorem no_synapse_to_is_None:
  "(p_connections e = None \<and>
    (\<forall>kc\<in>set (cells e). \<forall>pm. map_of pipettes (cell_id (snd kc)) = Some pm \<longrightarrow> synapse_to pm = None) \<and>
    load_yml_connections pipettes e = Inr e' \<longrightarrow>
      p_connections e' = None \<and> connection_calls e' = None \<and> connections ct e' = (None, e') \<and>
      summary ct lay dist e' = Inr (None, e')) \<and>
   load_old_child all_labels all_cre_types site_path isdir (Entry ''Connections'' [])
       (e0, have_labels, have_connections) =
     Inr (e0\<lparr> p_connections := Some [] \<rparr>, have_labels, True) \<and>
   load_old_child all_labels all_cre_types site_path isdir (Entry ''Connections'' [Entry ''None'' chs])
       (e0, have_labels, have_connections) =
     Inr (e0\<lparr> p_connections := Some [] \<rparr>, have_labels, True) \<and>
   connection_calls (e0\<lparr> p_connections := Some [] \<rparr>) = Some [] \<and>
   fst (connections ct (e0\<lparr> p_connections := Some [] \<rparr>)) = Some []"
proof (intro conjI impI)
  assume a: "p_connections e = None \<and>
    (\<forall>kc\<in>set (cells e). \<forall>pm. map_of pipettes (cell_id (snd kc)) = Some pm \<longrightarrow> synapse_to pm = None) \<and>
    load_yml_connections pipettes e = Inr e'"
  then have n: "p_connections e' = None"
    using for_each_no_synapse [of "cells e" pipettes e e'] by (simp add: load_yml_connections_def)
  show "p_connections e' = None" by (rule n)
  show "connection_calls e' = None" by (rule views_without_calls [OF n])
  show "connections ct e' = (None, e')" by (rule views_without_calls [OF n])
  show "summary ct lay dist e' = Inr (None, e')" by (rule views_without_calls [OF n])
next
  show "load_old_child all_labels all_cre_types site_path isdir (Entry ''Connections'' [])
       (e0, have_labels, have_connections) =
     Inr (e0\<lparr> p_connections := Some [] \<rparr>, have_labels, True)"
    by (simp add: load_old_child_def parse_connections_def reraise_def)
  show "load_old_child all_labels all_cre_types site_path isdir (Entry ''Connections'' [Entry ''None'' chs])
       (e0, have_labels, have_connections) =
     Inr (e0\<lparr> p_connections := Some [] \<rparr>, have_labels, True)"
    by (simp add: load_old_child_def parse_connections_def reraise_def)
  show "connection_calls (e0\<lparr> p_connections := Some [] \<rparr>) = Some []"
    by (simp add: connection_calls_def)
  show "fst (connections ct (e0\<lparr> p_connections := Some [] \<rparr>)) = Some []"
    by (simp add: connections_def connection_calls_def split: prod.splits)
qed

lemma ex_load_yml:
  "load_yml_connections ex_pipettes (ex_expt\<lparr> p_connections := None \<rparr>) =
     Inr (ex_expt\<lparr> p_connections := None, p_gaps := Some [(1, 2)] \<rparr>)"
  by (simp add: load_yml_connections_def ex_expt_def init_expt_def load_cell_conns_def
      ex_pipettes_def ex_cell1_def ex_cell2_def Cell_def load_conns_def load_post_id_def
      check_post_id_def)

theorem no_synapse_to_is_None_witness:
  "p_connections (ex_expt\<lparr> p_connections := None \<rparr>) = None \<and>
   load_yml_connections ex_pipettes (ex_expt\<lparr> p_connections := None \<rparr>) =
     Inr (ex_expt\<lparr> p_connections := None, p_gaps := Some [(1, 2)] \<rparr>) \<and>
   connection_calls (ex_expt\<lparr> p_connections := None, p_gaps := Some [(1, 2)] \<rparr>) = None \<and>
   summary ex_cre_type ex_target_layer ex_distance
     (ex_expt\<lparr> p_connections := None, p_gaps := Some [(1, 2)] \<rparr>) =
     Inr (None, ex_expt\<lparr> p_connections := None, p_gaps := Some [(1, 2)] \<rparr>)"
proof -
  have h: "\<forall>kc\<in>set (cells (ex_expt\<lparr> p_connections := None \<rparr>)).
             \<forall>pm. map_of ex_pipettes (cell_id (snd kc)) = Some pm \<longrightarrow> synapse_to pm = None"
    by (auto simp: ex_expt_def init_expt_def ex_pipettes_def ex_cell1_def ex_cell2_def Cell_def)
  show ?thesis
    using no_synapse_to_is_None [of "ex_expt\<lparr> p_connections := None \<rparr>" ex_pipettes
        "ex_expt\<lparr> p_connections := None, p_gaps := Some [(1, 2)] \<rparr>"
        ex_cre_type ex_target_layer ex_distance "[]" "[]" ex_site_path ex_isdir ex_expt
        False False "[]"] h ex_load_yml
    by simp
qed

subsection \<open>Cell ids of the curated lists\<close>

lemma ex_labeling_line:
  "parse_labeling_line [] [''sim1''] (Entry ''sim1: 1+ 2- 3- 4- 5- 6- 7- 8-'' []) old_cells =
     Inr ex_labelled_cells"
  by (simp add: parse_labeling_line_def re_split_ws_def is_space_def endswith_def
      valid_label_name_def parse_label_part_def parse_label_record_def match_label_record_def is_digit_def
      opt_group_def int_str_def startswith_def layer_labels_def old_cells_def
      ex_labelled_cells_def upto.simps Cell_def Let_def)

text \<open>
  Claim C6 at an old-format entry whose \<^verbatim>\<open>Connections\<close> section names a cell 9: the
  loader returns an experiment whose curated list holds the pair (2, 9), although the
  registry has the cells 1 to 8 only and no entry for 9. \<^verbatim>\<open>_parse_connections\<close> never looks at the
  registry.
\<close>

theorem old_format_keeps_missing_cell:
  "load_old_format [] [''sim1''] ex_site_path ex_isdir ex_entry_missing_cell =
     Inr ((init_expt :: (string, int) expt)\<lparr> cells := ex_labelled_cells,
                                                 p_connections := Some [(2, 9)] \<rparr>) \<and>
   map fst ex_labelled_cells = [1, 2, 3, 4, 5, 6, 7, 8] \<and>
   map_of ex_labelled_cells 9 = None"
  by (simp add: load_old_format_def ex_entry_missing_cell_def load_old_child_def reraise_def
      parse_labeling_def ex_labeling_line parse_connections_def parse_connection_line_def
      strip_def match_connection_def is_digit_def is_space_def startswith_def int_str_def
      init_expt_def)
     (simp add: ex_labelled_cells_def upto.simps)

text \<open>
  The YAML loader does make the check: each postsynaptic id that it appends is a key of
  the registry, and an integer id that is not raises \<^verbatim>\<open>ValueError\<close>. The presynaptic
  id is the id of a cell of the registry.
\<close>

lemma check_post_id_valid:
  assumes "check_post_id cs pre post l = Inr l'" and "map_of cs pre \<noteq> None"
    and "\<forall>ab\<in>set l. map_of cs (fst ab) \<noteq> None \<and> map_of cs (snd ab) \<noteq> None"
  shows "\<forall>ab\<in>set l'. map_of cs (fst ab) \<noteq> None \<and> map_of cs (snd ab) \<noteq> None"
proof (cases "map_of cs post")
  case None
  then show ?thesis using assms(1) by (simp add: check_post_id_def)
next
  case (Some c)
  then have "l' = l @ [(pre, post)]" using assms(1) by (simp add: check_post_id_def)
  then show ?thesis using assms(2,3) Some by simp
qed

lemma load_post_id_valid:
  assumes "load_post_id cs pre post l = Inr l'" and "map_of cs pre \<noteq> None"
    and "\<forall>ab\<in>set l. map_of cs (fst ab) \<noteq> None \<and> map_of cs (snd ab) \<noteq> None"
  shows "\<forall>ab\<in>set l'. map_of cs (fst ab) \<noteq> None \<and> map_of cs (snd ab) \<noteq> None"
proof (cases post)
  case (PInt n)
  then have "check_post_id cs pre n l = Inr l'" using assms(1) by (simp add: load_post_id_def)
  from check_post_id_valid [OF this assms(2,3)] show ?thesis .
next
  case (PStr s)
  show ?thesis
  proof (cases "match_post_id s")
    case None
    then show ?thesis using assms(1) PStr by (simp add: load_post_id_def)
  next
    case (Some g)
    obtain g0 g1 where g: "g = (g0, g1)" by (cases g)
    show ?thesis
    proof (cases "g1 = Some ''?''")
      case True
      then have "l' = l" using assms(1) PStr Some g by (simp add: load_post_id_def)
      then show ?thesis using assms(3) by simp
    next
      case False
      then have "check_post_id cs pre (int_str g0) l = Inr l'"
        using assms(1) PStr Some g by (simp add: load_post_id_def)
      from check_post_id_valid [OF this assms(2,3)] show ?thesis .
    qed
  qed
qed

lemma for_each_load_post_id_valid:
  assumes "for_each (load_post_id cs pre) posts l = Inr l'" and "map_of cs pre \<noteq> None"
    and "\<forall>ab\<in>set l. map_of cs (fst ab) \<noteq> None \<and> map_of cs (snd ab) \<noteq> None"
  shows "\<forall>ab\<in>set l'. map_of cs (fst ab) \<noteq> None \<and> map_of cs (snd ab) \<noteq> None"
  using assms
proof (induction posts arbitrary: l)
  case Nil
  then show ?case by simp
next
  case (Cons post posts)
  from Cons.prems(1) obtain l1 where l1: "load_post_id cs pre post l = Inr l1"
    and rest: "for_each (load_post_id cs pre) posts l1 = Inr l'"
    by (auto split: sum.splits)
  from load_post_id_valid [OF l1 Cons.prems(2,3)] Cons.IH [OF rest Cons.prems(2)]
  show ?case by blast
qed

lemma load_conns_valid:
  assumes "load_conns cs pre conns dst = Inr dst'" and "map_of cs pre \<noteq> None"
    and "\<forall>l. dst = Some l \<longrightarrow> (\<forall>ab\<in>set l. map_of cs (fst ab) \<noteq> None \<and> map_of cs (snd ab) \<noteq> None)"
  shows "\<forall>l. dst' = Some l \<longrightarrow> (\<forall>ab\<in>set l. map_of cs (fst ab) \<noteq> None \<and> map_of cs (snd ab) \<noteq> None)"
proof (cases conns)
  case None
  then show ?thesis using assms by (simp add: load_conns_def)
next
  case (Some posts)
  let ?l = "case dst of None \<Rightarrow> [] | Some l \<Rightarrow> l"
  from assms(1) Some obtain l' where l': "for_each (load_post_id cs pre) posts ?l = Inr l'"
    and d: "dst' = Some l'"
    by (auto simp: load_conns_def split: sum.splits)
  have "\<forall>ab\<in>set ?l. map_of cs (fst ab) \<noteq> None \<and> map_of cs (snd ab) \<noteq> None"
    using assms(3) by (cases dst) auto
  from for_each_load_post_id_valid [OF l' assms(2) this] d show ?thesis by simp
qed

lemma load_cell_conns_valid:
  assumes "load_cell_conns pipettes kc e = Inr e'" and "map_of (cells e) (cell_id (snd kc)) \<noteq> None"
    and "\<forall>l. p_connections e = Some l \<or> p_gaps e = Some l \<longrightarrow>
           (\<forall>ab\<in>set l. map_of (cells e) (fst ab) \<noteq> None \<and> map_of (cells e) (snd ab) \<noteq> None)"
  shows "cells e' = cells e \<and>
         (\<forall>l. p_connections e' = Some l \<or> p_gaps e' = Some l \<longrightarrow>
           (\<forall>ab\<in>set l. map_of (cells e) (fst ab) \<noteq> None \<and> map_of (cells e) (snd ab) \<noteq> None))"
proof -
  from assms(1) obtain pm where pm: "map_of pipettes (cell_id (snd kc)) = Some pm"
    by (cases "map_of pipettes (cell_id (snd kc))") (simp_all add: load_cell_conns_def)
  from assms(1) pm obtain c' where
    c': "load_conns (cells e) (cell_id (snd kc)) (synapse_to pm) (p_connections e) = Inr c'"
    by (cases "load_conns (cells e) (cell_id (snd kc)) (synapse_to pm) (p_connections e)")
       (simp_all add: load_cell_conns_def)
  from assms(1) pm c' obtain g' where
    g': "load_conns (cells e) (cell_id (snd kc)) (gap_to pm) (p_gaps e) = Inr g'"
    by (cases "load_conns (cells e) (cell_id (snd kc)) (gap_to pm) (p_gaps e)")
       (simp_all add: load_cell_conns_def)
  have e': "e' = e\<lparr> p_connections := c', p_gaps := g' \<rparr>"
    using assms(1) pm c' g' by (simp add: load_cell_conns_def)
  have pc: "\<forall>l. p_connections e = Some l \<longrightarrow>
      (\<forall>ab\<in>set l. map_of (cells e) (fst ab) \<noteq> None \<and> map_of (cells e) (snd ab) \<noteq> None)"
    and pg: "\<forall>l. p_gaps e = Some l \<longrightarrow>
      (\<forall>ab\<in>set l. map_of (cells e) (fst ab) \<noteq> None \<and> map_of (cells e) (snd ab) \<noteq> None)"
    using assms(3) by blast+
  note vc = load_conns_valid [OF c' assms(2) pc]
  note vg = load_conns_valid [OF g' assms(2) pg]
  have f: "cells e' = cells e" "p_connections e' = c'" "p_gaps e' = g'"
    by (simp_all add: e')
  show ?thesis
    unfolding f using vc vg by blast
qed

lemma load_yml_connections_valid:
  assumes "load_yml_connections pipettes e = Inr e'"
    and "\<forall>kc\<in>set (cells e). cell_id (snd kc) = fst kc"
    and "p_connections e = None" and "p_gaps e = None"
  shows "\<forall>l. p_connections e' = Some l \<or> p_gaps e' = Some l \<longrightarrow>
           (\<forall>ab\<in>set l. map_of (cells e) (fst ab) \<noteq> None \<and> map_of (cells e) (snd ab) \<noteq> None)"
proof -
  have gen: "for_each (load_cell_conns pipettes) ks e1 = Inr e' \<Longrightarrow>
        \<forall>kc\<in>set ks. map_of (cells e) (cell_id (snd kc)) \<noteq> None \<Longrightarrow> cells e1 = cells e \<Longrightarrow>
        \<forall>l. p_connections e1 = Some l \<or> p_gaps e1 = Some l \<longrightarrow>
           (\<forall>ab\<in>set l. map_of (cells e) (fst ab) \<noteq> None \<and> map_of (cells e) (snd ab) \<noteq> None) \<Longrightarrow>
        \<forall>l. p_connections e' = Some l \<or> p_gaps e' = Some l \<longrightarrow>
           (\<forall>ab\<in>set l. map_of (cells e) (fst ab) \<noteq> None \<and> map_of (cells e) (snd ab) \<noteq> None)"
    for ks e1
  proof (induction ks arbitrary: e1)
    case Nil
    then show ?case by simp
  next
    case (Cons kc ks)
    from Cons.prems(1) obtain e2 where e2: "load_cell_conns pipettes kc e1 = Inr e2"
      and rest: "for_each (load_cell_conns pipettes) ks e2 = Inr e'"
      by (auto split: sum.splits)
    have k: "map_of (cells e1) (cell_id (snd kc)) \<noteq> None"
      using Cons.prems(2,3) by simp
    from load_cell_conns_valid [OF e2 k] Cons.prems(3,4)
    have "cells e2 = cells e" and
      "\<forall>l. p_connections e2 = Some l \<or> p_gaps e2 = Some l \<longrightarrow>
           (\<forall>ab\<in>set l. map_of (cells e) (fst ab) \<noteq> None \<and> map_of (cells e) (snd ab) \<noteq> None)"
      by simp_all
    with Cons.IH [OF rest] Cons.prems(2) show ?case by simp
  qed
  have keys: "\<forall>kc\<in>set (cells e). map_of (cells e) (cell_id (snd kc)) \<noteq> None"
  proof
    fix kc assume kc: "kc \<in> set (cells e)"
    then have "fst kc \<in> fst ` set (cells e)" by simp
    then show "map_of (cells e) (cell_id (snd kc)) \<noteq> None"
      using assms(2) kc by (simp add: map_of_eq_None_iff)
  qed
  show ?thesis
    using gen [of "cells e" e] assms keys by (simp add: load_yml_connections_def)
qed

lemma load_post_id_missing:
  "map_of cs n = None \<Longrightarrow> load_post_id cs pre (PInt n) l = Inl ValueError"
  by (simp add: load_post_id_def check_post_id_def)

section \<open>Properties of the curated lists as objects\<close>

lemma slice_copy_frame:
  assumes "valid_refs h ob"
  shows "deref ((h @ [x])[length h := xs]) ob = deref h ob"
proof -
  have "\<And>b. b < length h \<Longrightarrow> ((h @ [x])[length h := xs]) ! b = h ! b"
    by (simp add: nth_append)
  then show ?thesis
    using assms
    by (cases "connections_ref ob"; cases "gaps_ref ob") (simp_all add: deref_def valid_refs_def)
qed

lemma connection_calls_obj_Some:
  assumes "connection_calls_obj h ob = (Some a, h')"
  shows "\<exists>b. connections_ref ob = Some b \<and> a = length h \<and> h' = h @ [h ! b]"
  using assms
  by (cases "connections_ref ob") (auto simp: connection_calls_obj_def slice_copy_def)

lemma gap_calls_obj_Some:
  assumes "gap_calls_obj h ob = (Some a, h')"
  shows "\<exists>b. gaps_ref ob = Some b \<and> a = length h \<and> h' = h @ [h ! b]"
  using assms
  by (cases "gaps_ref ob") (auto simp: gap_calls_obj_def slice_copy_def)

lemma deref_alloc:
  assumes "valid_refs h ob"
  shows "deref (h @ [x]) ob = deref h ob"
  using assms
  by (cases "connections_ref ob"; cases "gaps_ref ob")
     (simp_all add: deref_def valid_refs_def nth_append)

lemma ref_not_fresh:
  assumes "valid_refs h ob"
  shows "connections_ref ob \<noteq> Some (length h)" and "gaps_ref ob \<noteq> Some (length h)"
  using assms
  by (cases "connections_ref ob"; cases "gaps_ref ob"; simp add: valid_refs_def)+

text \<open>
  Claim C9. When a curated list exists, \<^verbatim>\<open>connection_calls\<close> (and likewise
  \<^verbatim>\<open>gap_calls\<close>) returns a new list object, at an address that the experiment does not
  refer to, with the content of the curated list; when it does not exist the property
  returns \<^verbatim>\<open>None\<close>. Whatever a caller then writes into the returned list, the
  experiment read through its own references is the same as before, and so are the
  results of \<^verbatim>\<open>connection_calls\<close>, \<^verbatim>\<open>gap_calls\<close>, \<^verbatim>\<open>connections\<close>, \<^verbatim>\<open>gaps\<close> and
  \<^verbatim>\<open>summary()\<close>.
\<close>

theorem calls_return_copies:
  assumes "valid_refs h ob"
  shows
   "(connections_ref ob = None \<longrightarrow>
       connection_calls_obj h ob = (None, h) \<and> connection_calls (deref h ob) = None) \<and>
    (gaps_ref ob = None \<longrightarrow>
       gap_calls_obj h ob = (None, h) \<and> gap_calls (deref h ob) = None) \<and>
    (\<forall>b. connections_ref ob = Some b \<longrightarrow>
       connection_calls_obj h ob = (Some (length h), h @ [h ! b]) \<and>
       (h @ [h ! b]) ! length h = h ! b \<and>
       connection_calls (deref h ob) = Some (h ! b)) \<and>
    (\<forall>b. gaps_ref ob = Some b \<longrightarrow>
       gap_calls_obj h ob = (Some (length h), h @ [h ! b]) \<and>
       (h @ [h ! b]) ! length h = h ! b \<and>
       gap_calls (deref h ob) = Some (h ! b)) \<and>
    (\<forall>a h'. connection_calls_obj h ob = (Some a, h') \<or> gap_calls_obj h ob = (Some a, h') \<longrightarrow>
       (connection_calls_obj h ob = (Some a, h') \<longrightarrow>
          connection_calls (deref h ob) = Some (h' ! a)) \<and>
       (gap_calls_obj h ob = (Some a, h') \<longrightarrow> gap_calls (deref h ob) = Some (h' ! a)) \<and>
       connections_ref ob \<noteq> Some a \<and> gaps_ref ob \<noteq> Some a \<and>
       deref h' ob = deref h ob \<and>
       deref (mutate h' a xs) ob = deref h ob \<and>
       connection_calls (deref (mutate h' a xs) ob) = connection_calls (deref h ob) \<and>
       gap_calls (deref (mutate h' a xs) ob) = gap_calls (deref h ob) \<and>
       connections ct (deref (mutate h' a xs) ob) = connections ct (deref h ob) \<and>
       gaps ct (deref (mutate h' a xs) ob) = gaps ct (deref h ob) \<and>
       summary ct lay dist (deref (mutate h' a xs) ob) = summary ct lay dist (deref h ob))"
proof (intro conjI allI impI)
  assume "connections_ref ob = None"
  then show "connection_calls_obj h ob = (None, h)" "connection_calls (deref h ob) = None"
    by (simp_all add: connection_calls_obj_def connection_calls_def deref_def)
next
  assume "gaps_ref ob = None"
  then show "gap_calls_obj h ob = (None, h)" "gap_calls (deref h ob) = None"
    by (simp_all add: gap_calls_obj_def gap_calls_def deref_def)
next
  fix b assume "connections_ref ob = Some b"
  then show "connection_calls_obj h ob = (Some (length h), h @ [h ! b])"
    "(h @ [h ! b]) ! length h = h ! b" "connection_calls (deref h ob) = Some (h ! b)"
    by (simp_all add: connection_calls_obj_def slice_copy_def connection_calls_def deref_def)
next
  fix b assume "gaps_ref ob = Some b"
  then show "gap_calls_obj h ob = (Some (length h), h @ [h ! b])"
    "(h @ [h ! b]) ! length h = h ! b" "gap_calls (deref h ob) = Some (h ! b)"
    by (simp_all add: gap_calls_obj_def slice_copy_def gap_calls_def deref_def)
next
  fix a h'
  assume r: "connection_calls_obj h ob = (Some a, h') \<or> gap_calls_obj h ob = (Some a, h')"
  then obtain x where a: "a = length h" and h': "h' = h @ [x]"
    using connection_calls_obj_Some gap_calls_obj_Some by blast
  have same: "deref (mutate h' a xs) ob = deref h ob"
    unfolding a h' mutate_def by (rule slice_copy_frame [OF assms])
  show "deref (mutate h' a xs) ob = deref h ob" by (rule same)
  show "deref h' ob = deref h ob" unfolding h' by (rule deref_alloc [OF assms])
  show "connections_ref ob \<noteq> Some a" "gaps_ref ob \<noteq> Some a"
    unfolding a by (rule ref_not_fresh [OF assms])+
  show "connection_calls (deref (mutate h' a xs) ob) = connection_calls (deref h ob)"
    "gap_calls (deref (mutate h' a xs) ob) = gap_calls (deref h ob)"
    "connections ct (deref (mutate h' a xs) ob) = connections ct (deref h ob)"
    "gaps ct (deref (mutate h' a xs) ob) = gaps ct (deref h ob)"
    "summary ct lay dist (deref (mutate h' a xs) ob) = summary ct lay dist (deref h ob)"
    unfolding same by (rule refl)+
  {
    assume "connection_calls_obj h ob = (Some a, h')"
    from connection_calls_obj_Some [OF this] obtain b where
      "connections_ref ob = Some b" "a = length h" "h' = h @ [h ! b]" by blast
    then show "connection_calls (deref h ob) = Some (h' ! a)"
      by (simp add: connection_calls_def deref_def)
  }
  {
    assume "gap_calls_obj h ob = (Some a, h')"
    from gap_calls_obj_Some [OF this] obtain b where
      "gaps_ref ob = Some b" "a = length h" "h' = h @ [h ! b]" by blast
    then show "gap_calls (deref h ob) = Some (h' ! a)"
      by (simp add: gap_calls_def deref_def)
  }
qed

theorem calls_return_copies_witness:
  "valid_refs ex_store ex_obj \<and>
   connection_calls_obj ex_store ex_obj = (Some 2, ex_store @ [[(1, 2), (2, 1)]]) \<and>
   gap_calls_obj ex_store ex_obj = (Some 2, ex_store @ [[(1, 2)]]) \<and>
   deref (mutate (ex_store @ [[(1, 2), (2, 1)]]) 2 []) ex_obj = deref ex_store ex_obj \<and>
   deref (mutate (ex_store @ [[(1, 2)]]) 2 [(7, 7)]) ex_obj = deref ex_store ex_obj \<and>
   connection_calls (deref (mutate (ex_store @ [[(1, 2), (2, 1)]]) 2 []) ex_obj) =
     Some [(1, 2), (2, 1)] \<and>
   gap_calls (deref (mutate (ex_store @ [[(1, 2)]]) 2 [(7, 7)]) ex_obj) = Some [(1, 2)]"
proof -
  have v: "valid_refs ex_store ex_obj"
    by (simp add: valid_refs_def ex_store_def ex_obj_def)
  have r: "connections_ref ex_obj = Some 0" "gaps_ref ex_obj = Some 1" "length ex_store = 2"
    "ex_store ! 0 = [(1, 2), (2, 1)]" "ex_store ! 1 = [(1, 2)]"
    by (simp_all add: ex_obj_def ex_store_def)
  note t1 = calls_return_copies [OF v, of "[]" ex_cre_type ex_target_layer ex_distance]
  note t2 = calls_return_copies [OF v, of "[(7, 7)]" ex_cre_type ex_target_layer ex_distance]
  have c: "connection_calls_obj ex_store ex_obj = (Some 2, ex_store @ [[(1, 2), (2, 1)]])"
    "connection_calls (deref ex_store ex_obj) = Some [(1, 2), (2, 1)]"
    using t1 r by simp_all
  have g: "gap_calls_obj ex_store ex_obj = (Some 2, ex_store @ [[(1, 2)]])"
    "gap_calls (deref ex_store ex_obj) = Some [(1, 2)]"
    using t1 r by simp_all
  have m1: "deref (mutate (ex_store @ [[(1, 2), (2, 1)]]) 2 []) ex_obj = deref ex_store ex_obj"
    using t1 c(1) by blast
  have m2: "deref (mutate (ex_store @ [[(1, 2)]]) 2 [(7, 7)]) ex_obj = deref ex_store ex_obj"
    using t2 g(1) by blast
  show ?thesis
    unfolding m1 m2 using v c g by simp
qed

end
